theory Spec2Isabelle
  imports Complex_Main
begin

section \<open>JavaScript values\<close>

text \<open>
  Values of the host language, as far as \<open>models/SerializableModel\<close> and
  \<open>enums/Enum.js\<close> inspect them. Every object carries an identity (a natural number):
  \<open>===\<close> on objects compares identities, and two occurrences of one identity are
  one shared object. Numbers are idealised as reals plus \<open>NaN\<close> and the two infinities
  (\<open>JInf True\<close> is \<open>Infinity\<close>, \<open>JInf False\<close> is \<open>-Infinity\<close>). A function value
  is a zero-argument producer: its identity and the value an invocation yields.
  \<open>JInst i c ps\<close> is an instance of the record type (class) named \<open>c\<close> with own
  properties \<open>ps\<close>, in insertion order.
\<close>

datatype jsval =
    Undefined
  | Null
  | JBool bool
  | JNum real
  | JNaN
  | JInf bool
  | JStr string
  | JFun nat jsval
  | JArr nat "jsval list"
  | JObj nat "(string \<times> jsval) list"
  | JInst nat string "(string \<times> jsval) list"

datatype error =
    TypeError
  | SyntaxError
  | RangeError
  | ValidationError string jsval

text \<open>\<open>ValidationError n v\<close> stands for the message
  \<open>Unknown ${n} enum value: ${v}\<close>, kept as its two interpolated parts.
  \<open>RangeError\<close> is what the host raises when the nesting of calls exceeds its call
  stack.\<close>

fun truthy :: "jsval \<Rightarrow> bool" where
  "truthy Undefined = False"
| "truthy Null = False"
| "truthy (JBool b) = b"
| "truthy (JNum r) = (r \<noteq> 0)"
| "truthy JNaN = False"
| "truthy (JStr s) = (s \<noteq> [])"
| "truthy _ = True"

text \<open>The operator \<open>===\<close>.\<close>

definition strict_eq :: "jsval \<Rightarrow> jsval \<Rightarrow> bool" where
  "strict_eq a b =
     (case a of
        Undefined \<Rightarrow> b = Undefined
      | Null \<Rightarrow> b = Null
      | JBool x \<Rightarrow> b = JBool x
      | JNum x \<Rightarrow> b = JNum x
      | JNaN \<Rightarrow> False
      | JInf x \<Rightarrow> b = JInf x
      | JStr x \<Rightarrow> b = JStr x
      | JFun i _ \<Rightarrow> (case b of JFun j _ \<Rightarrow> i = j | _ \<Rightarrow> False)
      | JArr i _ \<Rightarrow> (case b of JArr j _ \<Rightarrow> i = j | _ \<Rightarrow> False)
      | JObj i _ \<Rightarrow> (case b of JObj j _ \<Rightarrow> i = j | _ \<Rightarrow> False)
      | JInst i _ _ \<Rightarrow> (case b of JInst j _ _ \<Rightarrow> i = j | _ \<Rightarrow> False))"

fun is_function :: "jsval \<Rightarrow> bool" where
  "is_function (JFun _ _) = True"
| "is_function _ = False"

fun invoke :: "jsval \<Rightarrow> jsval" where
  "invoke (JFun _ r) = r"
| "invoke v = v"

fun isArray :: "jsval \<Rightarrow> bool" where
  "isArray (JArr _ _) = True"
| "isArray _ = False"

definition is_nullish :: "jsval \<Rightarrow> bool" where
  "is_nullish v = (v = Null \<or> v = Undefined)"

section \<open>The environment: \<open>utils/helpers\<close> and host conversions\<close>

text \<open>
  \<open>utils/helpers\<close> is imported by the model but is not part of the sources at hand, and
  the host's text conversions of numbers and objects are outside this development. Both
  are parameters: \<open>isEmpty\<close>, \<open>isNone\<close> are the predicates of that name;
  \<open>camelize\<close> and \<open>classify\<close> rename one key (the tree walks \<open>camelizeObject\<close>
  and \<open>classifyObject\<close> are defined below); \<open>toStr\<close> is the host's \<open>String(v)\<close>
  on numbers, functions and objects; \<open>numberOfString\<close> is the host's conversion of a
  text to a number and \<open>parseFloatString\<close> is \<open>parseFloat\<close> on a text, and
  \<open>parseJSON\<close> is \<open>JSON.parse\<close> on a text that starts like a number, a string, an
  array or an object.

  A member that a value does not own is read from its prototype: \<open>inherited p k\<close> is
  the member \<open>k\<close> of the prototype \<open>p\<close> (of plain objects, arrays, texts, numbers,
  booleans, functions, or of the instances of a class), \<open>Undefined\<close> where there is
  none. The methods \<open>serialize\<close> and \<open>clone\<close> of \<open>SerializableModel\<close> are
  defined below and are not read through \<open>inherited\<close>.

  \<open>enums/Enum.js\<close> calls the method \<open>contains\<close> of an array, which neither the
  language nor the sources at hand define: \<open>array_contains\<close> is that method where the
  host has one (its result, from the elements and the argument) and \<open>None\<close> where it
  has none.
\<close>

datatype number = NotANumber | Infinite bool | Finite real

datatype proto =
    ObjectProto
  | ArrayProto
  | StringProto
  | NumberProto
  | BooleanProto
  | FunctionProto
  | ClassProto string

record env =
  isEmpty :: "jsval \<Rightarrow> bool"
  isNone :: "jsval \<Rightarrow> bool"
  camelize :: "string \<Rightarrow> string"
  classify :: "string \<Rightarrow> string"
  toStr :: "jsval \<Rightarrow> string"
  numberOfString :: "string \<Rightarrow> number"
  parseFloatString :: "string \<Rightarrow> number"
  parseJSON :: "string \<Rightarrow> error + jsval"
  inherited :: "proto \<Rightarrow> string \<Rightarrow> jsval"
  array_contains :: "(jsval list \<Rightarrow> jsval \<Rightarrow> jsval) option"

definition ToString :: "env \<Rightarrow> jsval \<Rightarrow> string" where
  "ToString h v =
     (case v of
        JStr s \<Rightarrow> s
      | JBool b \<Rightarrow> (if b then ''true'' else ''false'')
      | Null \<Rightarrow> ''null''
      | Undefined \<Rightarrow> ''undefined''
      | JNaN \<Rightarrow> ''NaN''
      | JInf b \<Rightarrow> (if b then ''Infinity'' else ''-Infinity'')
      | _ \<Rightarrow> toStr h v)"

definition is_ws :: "char \<Rightarrow> bool" where
  "is_ws c = (c = CHR '' '' \<or> c = CHR 0x09 \<or> c = CHR 0x0A \<or> c = CHR 0x0D)"

definition trim_ws :: "string \<Rightarrow> string" where
  "trim_ws s = rev (dropWhile is_ws (rev (dropWhile is_ws s)))"

text \<open>
  \<open>JSON.parse\<close> on a text: the three literal names are parsed here, a text that is
  empty or starts with a character no JSON value starts with is a \<open>SyntaxError\<close>, and
  the remaining texts go to \<open>parseJSON\<close>.
\<close>

definition JSON_parse :: "env \<Rightarrow> string \<Rightarrow> error + jsval" where
  "JSON_parse h s =
     (let t = trim_ws s in
      if t = ''true'' then Inr (JBool True)
      else if t = ''false'' then Inr (JBool False)
      else if t = ''null'' then Inr Null
      else if t = [] then Inl SyntaxError
      else if hd t \<in> set ''{[\"-0123456789'' then parseJSON h t
      else Inl SyntaxError)"

definition isNaN :: "env \<Rightarrow> jsval \<Rightarrow> bool" where
  "isNaN h v =
     (case v of
        JNum _ \<Rightarrow> False
      | JNaN \<Rightarrow> True
      | Undefined \<Rightarrow> True
      | Null \<Rightarrow> False
      | JBool _ \<Rightarrow> False
      | JInf _ \<Rightarrow> False
      | _ \<Rightarrow> numberOfString h (ToString h v) = NotANumber)"

definition of_number :: "number \<Rightarrow> jsval" where
  "of_number n = (case n of NotANumber \<Rightarrow> JNaN | Infinite b \<Rightarrow> JInf b | Finite r \<Rightarrow> JNum r)"

definition parseFloat :: "env \<Rightarrow> jsval \<Rightarrow> jsval" where
  "parseFloat h v =
     (case v of
        JNum r \<Rightarrow> JNum r
      | JInf b \<Rightarrow> JInf b
      | _ \<Rightarrow> of_number (parseFloatString h (ToString h v)))"

section \<open>Field definitions and enums\<close>

text \<open>
  \<open>enums/Enum.js\<close>: an enum is an object whose own properties are its values;
  \<open>ename\<close> is the \<open>name\<close> of its class. \<open>hasValue\<close> asks the array of values
  for \<open>contains(val)\<close> and turns the answer into a boolean; on a host whose arrays
  have no such method the call is a \<open>TypeError\<close>.
\<close>

record js_enum =
  ename :: string
  evalues :: "jsval list"

definition hasValue :: "env \<Rightarrow> js_enum \<Rightarrow> jsval \<Rightarrow> error + bool" where
  "hasValue h e val =
     (case array_contains h of
        None \<Rightarrow> Inl TypeError
      | Some contains \<Rightarrow> Inr (truthy (contains (evalues e) val)))"

text \<open>
  The three constructors \<open>AttrFieldDef\<close>, \<open>FragmentFieldDef\<close> and
  \<open>FragmentArrayFieldDef\<close> with their \<open>type\<close> argument: the name of a kind for an
  attribute, the name of a record type for a fragment.
\<close>

datatype field_type =
    Attr string
  | Fragment string
  | FragmentArray string

text \<open>
  A field definition: \<open>key\<close> is null until \<open>getFieldDefs\<close> fills it in; the options
  copied onto it by \<open>setProperties\<close> are \<open>apiKey\<close>, \<open>serialize\<close> (here
  \<open>serializeOpt\<close>, false exactly when the option is the value \<open>false\<close>),
  \<open>defaultValue\<close> (\<open>Undefined\<close> when not given) and \<open>enumType\<close>.
\<close>

record field_def =
  key :: "string option"
  ftype :: field_type
  apiKey :: "string option"
  serializeOpt :: bool
  defaultValue :: jsval
  enumType :: "js_enum option"

definition attr :: "string \<Rightarrow> field_def" where
  "attr t = \<lparr>key = None, ftype = Attr t, apiKey = None, serializeOpt = True,
             defaultValue = Undefined, enumType = None\<rparr>"

definition fragment :: "string \<Rightarrow> field_def" where
  "fragment c = \<lparr>key = None, ftype = Fragment c, apiKey = None, serializeOpt = True,
                 defaultValue = Undefined, enumType = None\<rparr>"

definition fragmentArray :: "string \<Rightarrow> field_def" where
  "fragmentArray c = \<lparr>key = None, ftype = FragmentArray c, apiKey = None,
                      serializeOpt = True, defaultValue = Undefined, enumType = None\<rparr>"

section \<open>The state of the program\<close>

text \<open>
  \<open>next_id\<close> is the identity the next new object receives, \<open>frozen\<close> the objects
  \<open>Object.freeze\<close> was applied to, \<open>cache\<close> the static property \<open>_fieldDefs\<close> of
  each class that has one of its own (a schema object: its identity and its entries), and
  \<open>warnings\<close> what \<open>console.warn\<close> received (the key of the field).
\<close>

type_synonym schema = "nat \<times> (string \<times> field_def) list"

record js_state =
  next_id :: nat
  frozen :: "nat set"
  cache :: "(string \<times> schema) list"
  warnings :: "string list"

definition fresh :: "js_state \<Rightarrow> nat \<times> js_state" where
  "fresh st = (next_id st, st\<lparr>next_id := Suc (next_id st)\<rparr>)"

definition new_array :: "js_state \<Rightarrow> jsval list \<Rightarrow> jsval \<times> js_state" where
  "new_array st xs = (let (i, st') = fresh st in (JArr i xs, st'))"

section \<open>\<open>getValueOrDefault\<close>\<close>

text \<open>
  Modelled from the spec: \<open>assert\<close> of \<open>utils/helpers\<close> is not part of the sources at
  hand; a false condition fails with the error made from the message.
\<close>

definition assert :: "bool \<Rightarrow> error \<Rightarrow> error + unit" where
  "assert c e = (if c then Inr () else Inl e)"

text \<open>The first \<open>switch\<close>: the default of a kind, \<open>None\<close> when no case matches.\<close>

definition default_by_type :: "js_state \<Rightarrow> field_type \<Rightarrow> (jsval \<times> js_state) option" where
  "default_by_type st t =
     (case t of
        Attr k \<Rightarrow>
          if k = ''number'' then Some (Null, st)
          else if k = ''boolean'' then Some (JBool False, st)
          else if k = ''string'' then Some (JStr [], st)
          else if k = ''enum'' then Some (Null, st)
          else if k = ''array'' then Some (new_array st [])
          else None
      | _ \<Rightarrow> None)"

text \<open>The second \<open>switch\<close> and the final \<open>return val\<close>.\<close>

definition coerce_by_type :: "env \<Rightarrow> js_state \<Rightarrow> field_def \<Rightarrow> jsval \<Rightarrow> (error + jsval) \<times> js_state" where
  "coerce_by_type h st d val =
     (case ftype d of
        Attr k \<Rightarrow>
          if k = ''string'' then
            (Inr (if isNone h val then JStr [] else JStr (ToString h val)), st)
          else if k = ''number'' then
            (Inr (if isNaN h val then JNum 0 else parseFloat h val), st)
          else if k = ''boolean'' then
            (case JSON_parse h (ToString h val) of
               Inl e \<Rightarrow> (Inl e, st)
             | Inr v \<Rightarrow> (Inr (JBool (truthy v)), st))
          else if k = ''array'' then
            (if isArray val then (Inr val, st)
             else (let (a, st') = new_array st [] in (Inr a, st')))
          else if k = ''enum'' then
            (case enumType d of
               None \<Rightarrow> (Inl TypeError, st)
             | Some e \<Rightarrow>
                 (case hasValue h e val of
                    Inl err \<Rightarrow> (Inl err, st)
                  | Inr known \<Rightarrow>
                      (case assert known (ValidationError (ename e) val) of
                         Inl err \<Rightarrow> (Inl err, st)
                       | Inr _ \<Rightarrow> (Inr val, st))))
          else (Inr val, st)
      | _ \<Rightarrow> (Inr val, st))"

definition getValueOrDefault :: "env \<Rightarrow> js_state \<Rightarrow> field_def \<Rightarrow> jsval \<Rightarrow> (error + jsval) \<times> js_state" where
  "getValueOrDefault h st d val =
     (if isEmpty h val then
        (let defaultVal =
               (if is_function (defaultValue d) then invoke (defaultValue d)
                else defaultValue d)
         in if defaultVal \<noteq> Undefined then (Inr defaultVal, st)
            else (case default_by_type st (ftype d) of
                    Some (v, st') \<Rightarrow> (Inr v, st')
                  | None \<Rightarrow> coerce_by_type h st d val))
      else if is_function val then (Inr (invoke val), st)
      else coerce_by_type h st d val)"

section \<open>A concrete environment and the types of the documentation\<close>

text \<open>
  An environment to run the definitions on examples. \<open>isEmpty\<close> and \<open>isNone\<close> are
  modelled from the spec: \<open>isEmpty\<close> holds of null, of an absent value and of the empty
  text, \<open>isNone\<close> of null and of an absent value. Keys of the examples are camel-case
  words already, which \<open>camelize\<close> keeps; \<open>classify\<close> keeps them too. The host
  conversions answer as the host does on the values of the examples: no example turns a
  number or an array into text, converts a text other than blank or a word to a number,
  parses the JSON text of a number, string, array or object, or reads a member that a
  prototype of the host defines.

  Modelled from the spec: the array method \<open>contains\<close> is the membership test of the
  enumerated value type, by \<open>===\<close>.
\<close>

definition example_env :: env where
  "example_env =
     \<lparr>isEmpty = (\<lambda>v. v = Undefined \<or> v = Null \<or> v = JStr []),
      isNone = (\<lambda>v. v = Undefined \<or> v = Null),
      camelize = (\<lambda>k. k),
      classify = (\<lambda>k. k),
      toStr = (\<lambda>v. ''[object Object]''),
      numberOfString = (\<lambda>s. if trim_ws s = [] then Finite 0 else NotANumber),
      parseFloatString = (\<lambda>s. NotANumber),
      parseJSON = (\<lambda>s. Inl SyntaxError),
      inherited = (\<lambda>p k. Undefined),
      array_contains = Some (\<lambda>xs x. JBool (list_ex (\<lambda>y. strict_eq y x) xs))\<rparr>"

definition init_state :: js_state where
  "init_state = \<lparr>next_id = 0, frozen = {}, cache = [], warnings = []\<rparr>"


section \<open>Objects and classes\<close>

text \<open>Reading and writing \<open>obj[key]\<close> on a list of own properties: a new key goes
  to the end, a known key keeps its place.\<close>

definition get_prop :: "(string \<times> jsval) list \<Rightarrow> string \<Rightarrow> jsval" where
  "get_prop ps k = (case map_of ps k of None \<Rightarrow> Undefined | Some v \<Rightarrow> v)"

fun set_prop :: "string \<Rightarrow> 'a \<Rightarrow> (string \<times> 'a) list \<Rightarrow> (string \<times> 'a) list" where
  "set_prop k v [] = [(k, v)]"
| "set_prop k v (p # ps) = (if fst p = k then (k, v) # ps else p # set_prop k v ps)"

definition assign :: "(string \<times> 'a) list \<Rightarrow> (string \<times> 'a) list \<Rightarrow> (string \<times> 'a) list" where
  "assign target source = fold (\<lambda>(k, v). set_prop k v) source target"

fun show_nat :: "nat \<Rightarrow> string" where
  "show_nat n =
     (if n < 10 then [char_of (48 + n)]
      else show_nat (n div 10) @ [char_of (48 + n mod 10)])"

text \<open>The own enumerable properties \<open>Object.assign\<close> copies from a source.\<close>

definition own_entries :: "jsval \<Rightarrow> (string \<times> jsval) list" where
  "own_entries v =
     (case v of
        JObj _ ps \<Rightarrow> ps
      | JInst _ _ ps \<Rightarrow> ps
      | JArr _ xs \<Rightarrow> zip (map show_nat [0..<length xs]) xs
      | _ \<Rightarrow> [])"

text \<open>
  Reading \<open>v[key]\<close>: an own property of the value (of an array and of a text also its
  elements and its \<open>length\<close>), else the member its prototype has. \<open>lookup\<close> is the
  read on the own properties of a value with the prototype \<open>p\<close>. Null and an absent
  value have no members and reading one there is a \<open>TypeError\<close> (\<open>read_member\<close>);
  \<open>read\<close> is the read where the value is known to be neither.
\<close>

definition own_props :: "jsval \<Rightarrow> (string \<times> jsval) list" where
  "own_props v =
     (case v of
        JObj _ ps \<Rightarrow> ps
      | JInst _ _ ps \<Rightarrow> ps
      | JArr _ xs \<Rightarrow>
          zip (map show_nat [0..<length xs]) xs @ [(''length'', JNum (real (length xs)))]
      | JStr s \<Rightarrow>
          zip (map show_nat [0..<length s]) (map (\<lambda>c. JStr [c]) s)
            @ [(''length'', JNum (real (length s)))]
      | _ \<Rightarrow> [])"

definition proto_of :: "jsval \<Rightarrow> proto" where
  "proto_of v =
     (case v of
        JArr _ _ \<Rightarrow> ArrayProto
      | JStr _ \<Rightarrow> StringProto
      | JNum _ \<Rightarrow> NumberProto
      | JNaN \<Rightarrow> NumberProto
      | JInf _ \<Rightarrow> NumberProto
      | JBool _ \<Rightarrow> BooleanProto
      | JFun _ _ \<Rightarrow> FunctionProto
      | JInst _ c _ \<Rightarrow> ClassProto c
      | _ \<Rightarrow> ObjectProto)"

definition lookup :: "env \<Rightarrow> proto \<Rightarrow> (string \<times> jsval) list \<Rightarrow> string \<Rightarrow> jsval" where
  "lookup h p ps k = (case map_of ps k of Some x \<Rightarrow> x | None \<Rightarrow> inherited h p k)"

definition read :: "env \<Rightarrow> jsval \<Rightarrow> string \<Rightarrow> jsval" where
  "read h v k = lookup h (proto_of v) (own_props v) k"

definition read_member :: "env \<Rightarrow> jsval \<Rightarrow> string \<Rightarrow> error + jsval" where
  "read_member h v k = (if is_nullish v then Inl TypeError else Inr (read h v k))"

definition typeof_object :: "jsval \<Rightarrow> bool" where
  "typeof_object v =
     (case v of Null \<Rightarrow> True | JArr _ _ \<Rightarrow> True | JObj _ _ \<Rightarrow> True | JInst _ _ _ \<Rightarrow> True
      | _ \<Rightarrow> False)"

text \<open>
  A record type is a class that extends \<open>SerializableModel\<close> or another record type
  and declares fields whose initialisers are \<open>attr\<close>, \<open>fragment\<close> or
  \<open>fragmentArray\<close>. The program is the table of its classes by name. An old model may
  have a static method \<open>serialize\<close>, called as \<open>def.type.serialize(val, def)\<close>:
  \<open>static_serialize\<close> is what it returns.
\<close>

record class_decl =
  superclass :: "string option"
  declared :: "(string \<times> field_def) list"
  static_serialize :: "(jsval \<Rightarrow> field_def \<Rightarrow> jsval) option"

type_synonym program = "(string \<times> class_decl) list"

text \<open>The class and the classes it extends, nearest first; the walk is bounded by the
  size of the table.\<close>

fun chain :: "program \<Rightarrow> nat \<Rightarrow> string \<Rightarrow> string list" where
  "chain P 0 c = []"
| "chain P (Suc n) c =
     (case map_of P c of
        None \<Rightarrow> []
      | Some d \<Rightarrow> c # (case superclass d of None \<Rightarrow> [] | Some s \<Rightarrow> chain P n s))"

definition ancestors :: "program \<Rightarrow> string \<Rightarrow> string list" where
  "ancestors P c = chain P (length P) c"

definition declared_of :: "program \<Rightarrow> string \<Rightarrow> (string \<times> field_def) list" where
  "declared_of P c = (case map_of P c of None \<Rightarrow> [] | Some d \<Rightarrow> declared d)"

text \<open>The fields \<open>new this()\<close> initialises: those of the extended classes first.\<close>

definition instance_fields :: "program \<Rightarrow> string \<Rightarrow> (string \<times> field_def) list" where
  "instance_fields P c =
     fold (\<lambda>a acc. assign acc (declared_of P a)) (rev (ancestors P c)) []"

text \<open>A field definition as an object value, as it sits in a new instance before any
  value replaces it (its options are read by no operation on values).\<close>

definition def_object :: "nat \<Rightarrow> field_def \<Rightarrow> jsval" where
  "def_object i d =
     JObj i [(''key'', case key d of None \<Rightarrow> Null | Some k \<Rightarrow> JStr k),
             (''type'', case ftype d of Attr t \<Rightarrow> JStr t | Fragment c \<Rightarrow> JStr c
                        | FragmentArray c \<Rightarrow> JStr c)]"

fun def_objects :: "js_state \<Rightarrow> (string \<times> field_def) list \<Rightarrow> (string \<times> jsval) list \<times> js_state" where
  "def_objects st [] = ([], st)"
| "def_objects st ((k, d) # ds) =
     (let (i, st1) = fresh st;
          (ps, st2) = def_objects st1 ds
      in ((k, def_object i d) # ps, st2))"

text \<open>\<open>new this()\<close>: the identity and the own properties of the new instance of
  \<open>c\<close>.\<close>

definition construct :: "program \<Rightarrow> js_state \<Rightarrow> string
    \<Rightarrow> (nat \<times> (string \<times> jsval) list) \<times> js_state" where
  "construct P st c =
     (let (i, st1) = fresh st;
          (ps, st2) = def_objects st1 (instance_fields P c)
      in ((i, ps), st2))"

section \<open>\<open>getFieldDefs\<close> and \<open>getFieldNames\<close>\<close>

text \<open>Reading the static property \<open>this._fieldDefs\<close>: a class without one of its own
  reads that of the class it extends.\<close>

definition cached :: "js_state \<Rightarrow> string \<Rightarrow> bool" where
  "cached st a = (map_of (cache st) a \<noteq> None)"

definition static_fieldDefs :: "program \<Rightarrow> js_state \<Rightarrow> string \<Rightarrow> schema option" where
  "static_fieldDefs P st c =
     (case filter (cached st) (ancestors P c) of
        [] \<Rightarrow> None
      | a # _ \<Rightarrow> map_of (cache st) a)"

definition getFieldDefs :: "program \<Rightarrow> js_state \<Rightarrow> string \<Rightarrow> schema \<times> js_state" where
  "getFieldDefs P st c =
     (case static_fieldDefs P st c of
        Some fieldDefs \<Rightarrow> (fieldDefs, st)
      | None \<Rightarrow>
          (let (proto, st1) = construct P st c;
               (i, st2) = fresh st1;
               fieldDefs = (i, map (\<lambda>(k, d). (k, d\<lparr>key := Some k\<rparr>)) (instance_fields P c))
           in (fieldDefs, st2\<lparr>cache := set_prop c fieldDefs (cache st2)\<rparr>)))"

definition getFieldNames :: "program \<Rightarrow> js_state \<Rightarrow> string \<Rightarrow> string list \<times> js_state" where
  "getFieldNames P st c = (let (fieldDefs, st1) = getFieldDefs P st c in (map fst (snd fieldDefs), st1))"

section \<open>\<open>create\<close>\<close>

text \<open>The value \<open>val\<close> that \<open>create\<close> takes for one field definition: the initial
  value \<open>initialVals[key]\<close>, or the declared default when that is absent.\<close>

definition supplied :: "env \<Rightarrow> (string \<times> jsval) list \<Rightarrow> string \<Rightarrow> field_def \<Rightarrow> jsval" where
  "supplied h initialVals k d =
     (let val = lookup h ObjectProto initialVals k
      in if val = Undefined then defaultValue d else val)"

text \<open>The value \<open>create\<close> stores for the field, from \<open>val\<close>.\<close>

definition create_field :: "env \<Rightarrow> js_state \<Rightarrow> field_def \<Rightarrow> jsval \<Rightarrow> (error + jsval) \<times> js_state" where
  "create_field h st d val =
     (case ftype d of
        FragmentArray _ \<Rightarrow>
          (if truthy val then (Inr val, st)
           else (let (a, st1) = new_array st [] in (Inr a, st1)))
      | _ \<Rightarrow> getValueOrDefault h st d val)"

text \<open>The loop of \<open>create\<close> over the field definitions, on \<open>initialVals\<close>.\<close>

fun create_fields :: "env \<Rightarrow> js_state \<Rightarrow> (string \<times> field_def) list \<Rightarrow> (string \<times> jsval) list
    \<Rightarrow> (error + (string \<times> jsval) list) \<times> js_state" where
  "create_fields h st [] initialVals = (Inr initialVals, st)"
| "create_fields h st ((k, d) # ds) initialVals =
     (case create_field h st d (supplied h initialVals k d) of
        (Inl e, st1) \<Rightarrow> (Inl e, st1)
      | (Inr v, st1) \<Rightarrow> create_fields h st1 ds (set_prop k v initialVals))"

text \<open>The copy of \<open>props\<close> that \<open>create\<close> works with.\<close>

definition initial_values :: "jsval \<Rightarrow> (string \<times> jsval) list" where
  "initial_values props = (if typeof_object props then assign [] (own_entries props) else [])"

definition create :: "env \<Rightarrow> program \<Rightarrow> js_state \<Rightarrow> string \<Rightarrow> jsval \<Rightarrow> (error + jsval) \<times> js_state" where
  "create h P st c props =
     (let initialVals = initial_values props;
          (fieldDefs, st1) = getFieldDefs P st c
      in case create_fields h st1 (snd fieldDefs) initialVals of
           (Inl e, st2) \<Rightarrow> (Inl e, st2)
         | (Inr vals, st2) \<Rightarrow>
             (let ((i, ps), st3) = construct P st2 c
              in (Inr (JInst i c (assign ps vals)), st3)))"

section \<open>\<open>isEqual\<close>\<close>

text \<open>
  The methods of the class (\<open>toString\<close>, \<open>serialize\<close>, \<open>clone\<close>, \<open>isEqual\<close>) are
  on the prototype of its instances; the static methods (\<open>create\<close>, \<open>deserialize\<close>,
  \<open>getFieldNames\<close>, \<open>getFieldDefs\<close>) are on the class and are no members of its
  instances.
\<close>

fun every_equal :: "env \<Rightarrow> jsval \<Rightarrow> jsval \<Rightarrow> jsval list \<Rightarrow> error + bool" where
  "every_equal h this toModel [] = Inr True"
| "every_equal h this toModel (k # keys) =
     (case read_member h this (ToString h k) of
        Inl e \<Rightarrow> Inl e
      | Inr a \<Rightarrow>
          (case read_member h toModel (ToString h k) of
             Inl e \<Rightarrow> Inl e
           | Inr b \<Rightarrow> if strict_eq a b then every_equal h this toModel keys else Inr False))"

text \<open>
  \<open>isEqual\<close> calls \<open>this.getFieldNames()\<close> on the instance. Without an own property
  of that name the call is a \<open>TypeError\<close>; with one that is a function yielding an
  array, \<open>every\<close> runs over that array.
\<close>

definition isEqual :: "env \<Rightarrow> jsval \<Rightarrow> jsval \<Rightarrow> error + bool" where
  "isEqual h this toModel =
     (case read_member h this ''getFieldNames'' of
        Inl e \<Rightarrow> Inl e
      | Inr f \<Rightarrow>
          if is_function f then
            (case invoke f of
               JArr _ names \<Rightarrow> every_equal h this toModel names
             | _ \<Rightarrow> Inl TypeError)
          else Inl TypeError)"

text \<open>The comparison \<open>isEqual\<close> is written to make: \<open>===\<close> on every field name.\<close>

definition fieldwise_equal :: "string list \<Rightarrow> jsval \<Rightarrow> jsval \<Rightarrow> bool" where
  "fieldwise_equal names a b =
     list_all (\<lambda>k. strict_eq (get_prop (own_entries a) k) (get_prop (own_entries b) k)) names"

text \<open>The record types of the documentation.\<close>

definition Address :: class_decl where
  "Address = \<lparr>superclass = None,
     declared = [(''country'', attr ''string''), (''postcode'', attr ''string''),
       (''state'', attr ''string''), (''streetAddress'', attr ''string''),
       (''suburb'', attr ''string'')],
     static_serialize = None\<rparr>"

definition Customer :: class_decl where
  "Customer = \<lparr>superclass = None,
     declared = [(''firstName'', attr ''string''), (''lastName'', attr ''string''),
       (''dateOfBirth'', attr ''date''), (''address'', fragment ''Address''),
       (''otherAddresses'', fragmentArray ''Address'')],
     static_serialize = None\<rparr>"

definition docs :: program where
  "docs = [(''Address'', Address), (''Customer'', Customer)]"

text \<open>A record type that extends another record type.\<close>

definition Party :: class_decl where
  "Party = \<lparr>superclass = None, declared = [(''id'', attr ''number'')], static_serialize = None\<rparr>"

definition Person :: class_decl where
  "Person = \<lparr>superclass = Some ''Party'', declared = [(''name'', attr ''string'')], static_serialize = None\<rparr>"

definition parties :: program where
  "parties = [(''Party'', Party), (''Person'', Person)]"

section \<open>\<open>camelizeObject\<close>, \<open>classifyObject\<close> and the JSON copy\<close>

text \<open>
  Modelled from the spec: \<open>camelizeObject\<close> and \<open>classifyObject\<close> of
  \<open>utils/helpers\<close> are not part of the sources at hand. Each renames the keys of
  plain objects, recursively through nested objects and arrays, into new objects and
  arrays, and leaves every other value (an instance of a record type too) as it is.
\<close>

fun rename_keys :: "(string \<Rightarrow> string) \<Rightarrow> js_state \<Rightarrow> jsval \<Rightarrow> jsval \<times> js_state"
  and rename_list :: "(string \<Rightarrow> string) \<Rightarrow> js_state \<Rightarrow> jsval list \<Rightarrow> jsval list \<times> js_state"
  and rename_props :: "(string \<Rightarrow> string) \<Rightarrow> js_state \<Rightarrow> (string \<times> jsval) list
    \<Rightarrow> (string \<times> jsval) list \<times> js_state" where
  "rename_keys f st (JArr _ xs) =
     (let (i, st1) = fresh st; (ys, st2) = rename_list f st1 xs in (JArr i ys, st2))"
| "rename_keys f st (JObj _ ps) =
     (let (i, st1) = fresh st; (qs, st2) = rename_props f st1 ps
      in (JObj i (assign [] qs), st2))"
| "rename_keys f st v = (v, st)"
| "rename_list f st [] = ([], st)"
| "rename_list f st (x # xs) =
     (let (y, st1) = rename_keys f st x; (ys, st2) = rename_list f st1 xs in (y # ys, st2))"
| "rename_props f st [] = ([], st)"
| "rename_props f st ((k, v) # ps) =
     (let (w, st1) = rename_keys f st v; (qs, st2) = rename_props f st1 ps
      in ((f k, w) # qs, st2))"

definition camelizeObject :: "env \<Rightarrow> js_state \<Rightarrow> jsval \<Rightarrow> jsval \<times> js_state" where
  "camelizeObject h = rename_keys (camelize h)"

definition classifyObject :: "env \<Rightarrow> js_state \<Rightarrow> jsval \<Rightarrow> jsval \<times> js_state" where
  "classifyObject h = rename_keys (classify h)"

text \<open>
  \<open>JSON.parse(JSON.stringify(v))\<close>, the copy \<open>clone\<close> makes of a value without a
  \<open>clone\<close> method: \<open>JSON.stringify\<close> gives no text for an absent value or a function,
  and parsing that is a \<open>SyntaxError\<close>; inside an array such a value becomes null,
  inside an object its property is left out; \<open>NaN\<close> and the infinities become null; objects (instances
  by their own properties) and arrays are built anew.
\<close>

fun no_json :: "jsval \<Rightarrow> bool" where
  "no_json Undefined = True"
| "no_json (JFun _ _) = True"
| "no_json _ = False"

fun json_copy :: "js_state \<Rightarrow> jsval \<Rightarrow> jsval \<times> js_state"
  and json_copy_list :: "js_state \<Rightarrow> jsval list \<Rightarrow> jsval list \<times> js_state"
  and json_copy_props :: "js_state \<Rightarrow> (string \<times> jsval) list \<Rightarrow> (string \<times> jsval) list \<times> js_state" where
  "json_copy st (JArr _ xs) =
     (let (i, st1) = fresh st; (ys, st2) = json_copy_list st1 xs in (JArr i ys, st2))"
| "json_copy st (JObj _ ps) =
     (let (i, st1) = fresh st; (qs, st2) = json_copy_props st1 ps
      in (JObj i (assign [] qs), st2))"
| "json_copy st (JInst _ _ ps) =
     (let (i, st1) = fresh st; (qs, st2) = json_copy_props st1 ps
      in (JObj i (assign [] qs), st2))"
| "json_copy st JNaN = (Null, st)"
| "json_copy st (JInf _) = (Null, st)"
| "json_copy st Undefined = (Null, st)"
| "json_copy st (JFun _ _) = (Null, st)"
| "json_copy st v = (v, st)"
| "json_copy_list st [] = ([], st)"
| "json_copy_list st (x # xs) =
     (let (y, st1) = json_copy st x; (ys, st2) = json_copy_list st1 xs in (y # ys, st2))"
| "json_copy_props st [] = ([], st)"
| "json_copy_props st ((k, v) # ps) =
     (if no_json v then json_copy_props st ps
      else (let (w, st1) = json_copy st v; (qs, st2) = json_copy_props st1 ps
            in ((k, w) # qs, st2)))"

definition JSON_parse_stringify :: "js_state \<Rightarrow> jsval \<Rightarrow> (error + jsval) \<times> js_state" where
  "JSON_parse_stringify st v =
     (if no_json v then (Inl SyntaxError, st)
      else (let (w, st1) = json_copy st v in (Inr w, st1)))"

text \<open>\<open>JSON.parse\<close> of a text builds new plain data: whatever \<open>parseJSON\<close>
  answers is read as plain data.\<close>

definition JSON_parse_new :: "env \<Rightarrow> js_state \<Rightarrow> string \<Rightarrow> (error + jsval) \<times> js_state" where
  "JSON_parse_new h st s =
     (case JSON_parse h s of
        Inl e \<Rightarrow> (Inl e, st)
      | Inr v \<Rightarrow> (let (w, st1) = json_copy st v in (Inr w, st1)))"

section \<open>Methods of values\<close>

text \<open>
  What \<open>v.serialize\<close> or \<open>v.clone\<close> finds: for an instance of a record type an own
  property of that name, else the method of \<open>SerializableModel\<close>; for any other value
  the member read from it; nothing on null and on an absent value.
\<close>

datatype looked_up = Own jsval | Proto | Missing

definition look_up :: "env \<Rightarrow> string \<Rightarrow> jsval \<Rightarrow> looked_up" where
  "look_up h name v =
     (case v of
        JInst _ _ ps \<Rightarrow> (case map_of ps name of Some x \<Rightarrow> Own x | None \<Rightarrow> Proto)
      | _ \<Rightarrow> if is_nullish v then Missing else Own (read h v name))"

text \<open>The test \<open>v && v.name\<close>.\<close>

definition supports :: "env \<Rightarrow> string \<Rightarrow> jsval \<Rightarrow> bool" where
  "supports h name v =
     (truthy v \<and> (case look_up h name v of Own x \<Rightarrow> truthy x | Proto \<Rightarrow> True | Missing \<Rightarrow> False))"

text \<open>The wire key \<open>(def && def.apiKey) || key\<close>.\<close>

definition wire_key :: "string \<Rightarrow> field_def \<Rightarrow> string" where
  "wire_key k d = (case apiKey d of Some a \<Rightarrow> if a \<noteq> [] then a else k | None \<Rightarrow> k)"

definition freeze :: "js_state \<Rightarrow> jsval \<Rightarrow> js_state" where
  "freeze st v =
     (case v of
        JArr i _ \<Rightarrow> st\<lparr>frozen := insert i (frozen st)\<rparr>
      | JObj i _ \<Rightarrow> st\<lparr>frozen := insert i (frozen st)\<rparr>
      | JInst i _ _ \<Rightarrow> st\<lparr>frozen := insert i (frozen st)\<rparr>
      | JFun i _ \<Rightarrow> st\<lparr>frozen := insert i (frozen st)\<rparr>
      | _ \<Rightarrow> st)"

section \<open>\<open>deserialize\<close>\<close>

text \<open>
  The result of a call: the error it raised or the value it returned, and the state it
  left.

  \<open>deserialize\<close> of the class \<open>c\<close>. Its \<open>map\<close> over an array of fragments
  (\<open>deserialize_array\<close>) and the body of its \<open>reduce\<close> over the field definitions
  (\<open>deserialize_field\<close> for one definition, \<open>deserialize_fields\<close> for all) take the
  nested call \<open>def.type.deserialize\<close> as \<open>rec\<close>. The recursion follows the nesting
  of the input through whatever \<open>camelizeObject\<close> returns. The number \<open>n\<close> is the
  number of nested calls the call stack of the host has room for: a call when there is
  no room left raises \<open>RangeError\<close>, as the host does. Calling \<open>deserialize\<close> of a
  fragment type that is no class of the program is a \<open>TypeError\<close>.
\<close>

type_synonym 'a result = "(error + 'a) \<times> js_state"

definition parse_input :: "env \<Rightarrow> js_state \<Rightarrow> jsval \<Rightarrow> jsval result" where
  "parse_input h st json = (case json of JStr s \<Rightarrow> JSON_parse_new h st s | _ \<Rightarrow> (Inr json, st))"

definition elements :: "jsval \<Rightarrow> jsval list option" where
  "elements v = (case v of JArr _ xs \<Rightarrow> Some xs | _ \<Rightarrow> None)"

fun deserialize_array :: "(js_state \<Rightarrow> string \<Rightarrow> jsval \<Rightarrow> jsval result) \<Rightarrow> js_state \<Rightarrow> string
      \<Rightarrow> jsval list \<Rightarrow> (jsval list) result" where
  "deserialize_array rec st t [] = (Inr [], st)"
| "deserialize_array rec st t (v # vs) =
     (case rec st t v of
        (Inl e, st1) \<Rightarrow> (Inl e, st1)
      | (Inr y, st1) \<Rightarrow>
          (case deserialize_array rec st1 t vs of
             (Inl e, st2) \<Rightarrow> (Inl e, st2)
           | (Inr ys, st2) \<Rightarrow> (Inr (y # ys), st2)))"

text \<open>The value \<open>obj[key]\<close> for one field definition, from
  \<open>val = camelizedJson[apiKey]\<close>.\<close>

definition deserialize_field :: "(js_state \<Rightarrow> string \<Rightarrow> jsval \<Rightarrow> jsval result) \<Rightarrow> env \<Rightarrow> js_state
      \<Rightarrow> jsval \<Rightarrow> string \<Rightarrow> field_def \<Rightarrow> jsval result" where
  "deserialize_field rec h st camelizedJson k d =
     (let val = read h camelizedJson (wire_key k d)
      in case ftype d of
           Attr _ \<Rightarrow> getValueOrDefault h st d val
         | Fragment t \<Rightarrow> rec st t val
         | FragmentArray t \<Rightarrow>
             (case elements val of
                Some xs \<Rightarrow>
                  (case deserialize_array rec st t xs of
                     (Inl e, st1) \<Rightarrow> (Inl e, st1)
                   | (Inr ys, st1) \<Rightarrow> (let (a, st2) = new_array st1 ys in (Inr a, st2)))
              | None \<Rightarrow> (let (a, st1) = new_array st [] in (Inr a, st1))))"

fun deserialize_fields :: "(js_state \<Rightarrow> string \<Rightarrow> jsval \<Rightarrow> jsval result) \<Rightarrow> env \<Rightarrow> js_state
      \<Rightarrow> jsval \<Rightarrow> (string \<times> field_def) list \<Rightarrow> (string \<times> jsval) list
      \<Rightarrow> ((string \<times> jsval) list) result" where
  "deserialize_fields rec h st camelizedJson [] obj = (Inr obj, st)"
| "deserialize_fields rec h st camelizedJson ((k, d) # ds) obj =
     (case deserialize_field rec h st camelizedJson k d of
        (Inl e, st1) \<Rightarrow> (Inl e, st1)
      | (Inr v, st1) \<Rightarrow> deserialize_fields rec h st1 camelizedJson ds (set_prop k v obj))"

text \<open>The first lines of \<open>deserialize\<close>, up to \<open>camelizedJson\<close>: the input is parsed
  when it is a text, frozen, and handed to \<open>camelizeObject\<close>.\<close>

definition normalize :: "env \<Rightarrow> js_state \<Rightarrow> jsval \<Rightarrow> jsval result" where
  "normalize h st json =
     (case parse_input h st json of
        (Inl e, st1) \<Rightarrow> (Inl e, st1)
      | (Inr json1, st1) \<Rightarrow>
          (let st2 = freeze st1 json1;
               (camelizedJson, st3) = camelizeObject h st2 json1
           in (Inr camelizedJson, st3)))"

primrec deserialize :: "env \<Rightarrow> program \<Rightarrow> nat \<Rightarrow> js_state \<Rightarrow> string \<Rightarrow> jsval \<Rightarrow> jsval result" where
  "deserialize h P 0 = (\<lambda>st c json. (Inl RangeError, st))"
| "deserialize h P (Suc n) = (\<lambda>st c json.
     if map_of P c = None then (Inl TypeError, st)
     else
       (case normalize h st json of
          (Inl e, st3) \<Rightarrow> (Inl e, st3)
        | (Inr camelizedJson, st3) \<Rightarrow>
            if is_nullish camelizedJson then (Inr Null, st3)
            else
              (let (fieldDefs, st4) = getFieldDefs P st3 c;
                   (i, st5) = fresh st4
               in case deserialize_fields (deserialize h P n) h st5 camelizedJson
                         (snd fieldDefs) [] of
                    (Inl e, st6) \<Rightarrow> (Inl e, st6)
                  | (Inr modelParams, st6) \<Rightarrow> create h P st6 c (JObj i modelParams))))"

section \<open>\<open>serialize\<close>\<close>

text \<open>
  Calling the method \<open>name\<close> of a value that \<open>supports\<close> it: the method of the
  class is \<open>rec\<close>; a member found on the value is called when it is a function, and
  calling one that is none is a \<open>TypeError\<close>.
\<close>

definition call_method :: "env \<Rightarrow> string \<Rightarrow> (js_state \<Rightarrow> jsval \<Rightarrow> jsval result) \<Rightarrow> js_state
      \<Rightarrow> jsval \<Rightarrow> jsval result" where
  "call_method h name rec st v =
     (case look_up h name v of
        Proto \<Rightarrow> rec st v
      | Own x \<Rightarrow> if is_function x then (Inr (invoke x), st) else (Inl TypeError, st)
      | Missing \<Rightarrow> (Inl TypeError, st))"

text \<open>The static method \<open>serialize\<close> that \<open>def.type.serialize\<close> finds on the class
  \<open>t\<close>: its own or that of the nearest class it extends.\<close>

definition static_serialize_of :: "program \<Rightarrow> string \<Rightarrow> (jsval \<Rightarrow> field_def \<Rightarrow> jsval) option" where
  "static_serialize_of P t =
     (case List.map_filter
             (\<lambda>a. case map_of P a of None \<Rightarrow> None | Some cd \<Rightarrow> static_serialize cd)
             (ancestors P t) of
        [] \<Rightarrow> None
      | f # _ \<Rightarrow> Some f)"

text \<open>
  \<open>serialize\<close> of an instance (the argument \<open>options\<close> is only handed on to the
  nested calls, and is left out). \<open>serialize_array\<close> is the \<open>map\<close> over a fragment
  array, \<open>serialize_field\<close> the value written for one field definition, from the value
  \<open>val = this[key]\<close>, and \<open>serialize_fields\<close> the \<open>reduce\<close> over the field
  definitions. The recursion is bounded as for \<open>deserialize\<close>.
\<close>

fun serialize_array :: "env \<Rightarrow> (js_state \<Rightarrow> jsval \<Rightarrow> jsval result) \<Rightarrow> js_state \<Rightarrow> jsval list
      \<Rightarrow> (jsval list) result" where
  "serialize_array h rec st [] = (Inr [], st)"
| "serialize_array h rec st (v # vs) =
     (case (if supports h ''serialize'' v then call_method h ''serialize'' rec st v
            else (Inr Null, st)) of
        (Inl e, st1) \<Rightarrow> (Inl e, st1)
      | (Inr y, st1) \<Rightarrow>
          (case serialize_array h rec st1 vs of
             (Inl e, st2) \<Rightarrow> (Inl e, st2)
           | (Inr ys, st2) \<Rightarrow> (Inr (y # ys), st2)))"

definition serialize_field :: "env \<Rightarrow> program \<Rightarrow> (js_state \<Rightarrow> jsval \<Rightarrow> jsval result) \<Rightarrow> js_state
      \<Rightarrow> string \<Rightarrow> field_def \<Rightarrow> jsval \<Rightarrow> jsval result" where
  "serialize_field h P rec st k d val =
     (case ftype d of
        Attr _ \<Rightarrow> (Inr val, st)
      | Fragment t \<Rightarrow>
          (if truthy val then
             (if supports h ''serialize'' val then call_method h ''serialize'' rec st val
              else
                (case static_serialize_of P t of
                   Some f \<Rightarrow> (Inr (f val d), st)
                 | None \<Rightarrow> (Inr Null, st\<lparr>warnings := warnings st @ [k]\<rparr>)))
           else (Inr Null, st))
      | FragmentArray t \<Rightarrow>
          (case elements val of
             Some xs \<Rightarrow>
               (case serialize_array h rec st xs of
                  (Inl e, st1) \<Rightarrow> (Inl e, st1)
                | (Inr ys, st1) \<Rightarrow> (let (a, st2) = new_array st1 ys in (Inr a, st2)))
           | None \<Rightarrow>
               (if truthy val then (Inr val, st)
                else (let (a, st1) = new_array st [] in (Inr a, st1)))))"

fun serialize_fields :: "env \<Rightarrow> program \<Rightarrow> (js_state \<Rightarrow> jsval \<Rightarrow> jsval result) \<Rightarrow> js_state
      \<Rightarrow> jsval \<Rightarrow> (string \<times> field_def) list \<Rightarrow> (string \<times> jsval) list
      \<Rightarrow> ((string \<times> jsval) list) result" where
  "serialize_fields h P rec st this [] obj = (Inr obj, st)"
| "serialize_fields h P rec st this ((k, d) # ds) obj =
     (if serializeOpt d then
        (case serialize_field h P rec st k d (read h this k) of
           (Inl e, st1) \<Rightarrow> (Inl e, st1)
         | (Inr val, st1) \<Rightarrow>
             serialize_fields h P rec st1 this ds (set_prop (wire_key k d) val obj))
      else serialize_fields h P rec st this ds obj)"

text \<open>The wire keys \<open>serialize\<close> writes, in the order of the field definitions.\<close>

definition written :: "(string \<times> field_def) list \<Rightarrow> string list" where
  "written defs = map (\<lambda>(k, d). wire_key k d) (filter (\<lambda>(k, d). serializeOpt d) defs)"

definition class_of :: "jsval \<Rightarrow> string option" where
  "class_of v = (case v of JInst _ c _ \<Rightarrow> Some c | _ \<Rightarrow> None)"

primrec serialize :: "env \<Rightarrow> program \<Rightarrow> nat \<Rightarrow> js_state \<Rightarrow> jsval \<Rightarrow> jsval result" where
  "serialize h P 0 = (\<lambda>st this. (Inl RangeError, st))"
| "serialize h P (Suc n) = (\<lambda>st this.
     case class_of this of
       None \<Rightarrow> (Inl TypeError, st)
     | Some c \<Rightarrow>
         (let (fieldDefs, st1) = getFieldDefs P st c;
              (i, st2) = fresh st1
          in case serialize_fields h P (serialize h P n) st2 this (snd fieldDefs) [] of
               (Inl e, st3) \<Rightarrow> (Inl e, st3)
             | (Inr result, st3) \<Rightarrow>
                 (let (out, st4) = classifyObject h st3 (JObj i result)
                  in (Inr out, st4))))"

section \<open>\<open>clone\<close>\<close>

text \<open>The copy of one fragment value:
  \<open>val && val.clone ? val.clone() : JSON.parse(JSON.stringify(val))\<close>.\<close>

definition clone_value :: "env \<Rightarrow> (js_state \<Rightarrow> jsval \<Rightarrow> jsval result) \<Rightarrow> js_state \<Rightarrow> jsval
      \<Rightarrow> jsval result" where
  "clone_value h rec st val =
     (if supports h ''clone'' val then call_method h ''clone'' rec st val
      else JSON_parse_stringify st val)"

fun clone_array :: "env \<Rightarrow> (js_state \<Rightarrow> jsval \<Rightarrow> jsval result) \<Rightarrow> js_state \<Rightarrow> jsval list
      \<Rightarrow> (jsval list) result" where
  "clone_array h rec st [] = (Inr [], st)"
| "clone_array h rec st (v # vs) =
     (case clone_value h rec st v of
        (Inl e, st1) \<Rightarrow> (Inl e, st1)
      | (Inr y, st1) \<Rightarrow>
          (case clone_array h rec st1 vs of
             (Inl e, st2) \<Rightarrow> (Inl e, st2)
           | (Inr ys, st2) \<Rightarrow> (Inr (y # ys), st2)))"

text \<open>The value \<open>clone\<close> takes for one field definition, from the value
  \<open>this[key]\<close> of the field.\<close>

definition clone_field :: "env \<Rightarrow> (js_state \<Rightarrow> jsval \<Rightarrow> jsval result) \<Rightarrow> js_state \<Rightarrow> field_def
      \<Rightarrow> jsval \<Rightarrow> jsval result" where
  "clone_field h rec st d val =
     (case ftype d of
        Attr _ \<Rightarrow> (Inr val, st)
      | Fragment t \<Rightarrow> clone_value h rec st val
      | FragmentArray t \<Rightarrow>
          (case elements val of
             Some xs \<Rightarrow>
               (case clone_array h rec st xs of
                  (Inl e, st1) \<Rightarrow> (Inl e, st1)
                | (Inr ys, st1) \<Rightarrow> (let (a, st2) = new_array st1 ys in (Inr a, st2)))
           | None \<Rightarrow> JSON_parse_stringify st val))"

fun clone_fields :: "env \<Rightarrow> (js_state \<Rightarrow> jsval \<Rightarrow> jsval result) \<Rightarrow> js_state \<Rightarrow> jsval
      \<Rightarrow> (string \<times> field_def) list \<Rightarrow> (string \<times> jsval) list
      \<Rightarrow> ((string \<times> jsval) list) result" where
  "clone_fields h rec st this [] obj = (Inr obj, st)"
| "clone_fields h rec st this ((k, d) # ds) obj =
     (case clone_field h rec st d (read h this k) of
        (Inl e, st1) \<Rightarrow> (Inl e, st1)
      | (Inr result, st1) \<Rightarrow> clone_fields h rec st1 this ds (set_prop k result obj))"

primrec clone :: "env \<Rightarrow> program \<Rightarrow> nat \<Rightarrow> js_state \<Rightarrow> jsval \<Rightarrow> jsval result" where
  "clone h P 0 = (\<lambda>st this. (Inl RangeError, st))"
| "clone h P (Suc n) = (\<lambda>st this.
     case class_of this of
       None \<Rightarrow> (Inl TypeError, st)
     | Some c \<Rightarrow>
         (let (fieldDefs, st1) = getFieldDefs P st c;
              (i, st2) = fresh st1
          in case clone_fields h (clone h P n) st2 this (snd fieldDefs) [] of
               (Inl e, st3) \<Rightarrow> (Inl e, st3)
             | (Inr json, st3) \<Rightarrow> create h P st3 c (JObj i json)))"

text \<open>A record type with an attribute of kind \<open>array\<close>, one whose field has a wire
  key, and one with an attribute of kind \<open>number\<close>.\<close>

definition Basket :: class_decl where
  "Basket = \<lparr>superclass = None,
     declared = [(''owner'', attr ''string''), (''items'', attr ''array'')],
     static_serialize = None\<rparr>"

definition Account :: class_decl where
  "Account = \<lparr>superclass = None,
     declared = [(''fullName'', (attr ''string'')\<lparr>apiKey := Some ''name''\<rparr>)],
     static_serialize = None\<rparr>"

definition Product :: class_decl where
  "Product = \<lparr>superclass = None, declared = [(''price'', attr ''number'')],
     static_serialize = None\<rparr>"

definition shop :: program where
  "shop = [(''Basket'', Basket), (''Account'', Account), (''Address'', Address),
           (''Customer'', Customer), (''Product'', Product)]"

text \<open>A state in which the objects with the identities below 100 exist already.\<close>

definition run_state :: js_state where
  "run_state = \<lparr>next_id = 100, frozen = {}, cache = [], warnings = []\<rparr>"

section \<open>Relations between states\<close>

text \<open>\<open>allocs st st'\<close>: the state \<open>st'\<close> is \<open>st\<close> after some new objects were made
  and nothing else. \<open>grows P st st'\<close>: identities were only added, and every class that
  read a schema in \<open>st\<close> reads the same schema in \<open>st'\<close>.\<close>

definition allocs :: "js_state \<Rightarrow> js_state \<Rightarrow> bool" where
  "allocs st st' =
     (next_id st \<le> next_id st' \<and> frozen st' = frozen st \<and> cache st' = cache st
      \<and> warnings st' = warnings st)"

definition keeps_schemas :: "program \<Rightarrow> js_state \<Rightarrow> js_state \<Rightarrow> bool" where
  "keeps_schemas P st st' =
     (\<forall>c. static_fieldDefs P st c = None \<or> static_fieldDefs P st' c = static_fieldDefs P st c)"

definition grows :: "program \<Rightarrow> js_state \<Rightarrow> js_state \<Rightarrow> bool" where
  "grows P st st' = (next_id st \<le> next_id st' \<and> frozen st' = frozen st \<and> keeps_schemas P st st')"

text \<open>\<open>evolves P st st'\<close>: as \<open>grows\<close>, but objects may have been frozen.\<close>

definition evolves :: "program \<Rightarrow> js_state \<Rightarrow> js_state \<Rightarrow> bool" where
  "evolves P st st' =
     (next_id st \<le> next_id st' \<and> frozen st \<subseteq> frozen st' \<and> keeps_schemas P st st')"

definition rec_evolves :: "program \<Rightarrow> (js_state \<Rightarrow> string \<Rightarrow> jsval \<Rightarrow> jsval result) \<Rightarrow> bool" where
  "rec_evolves P rec = (\<forall>s t v. evolves P s (snd (rec s t v)))"

section \<open>Values in coerced form\<close>

text \<open>
  \<open>declared_default d\<close> is the default the definition declares (\<open>Undefined\<close> when it
  declares none), and \<open>zero_value k v\<close> says that \<open>v\<close> is the value the kind \<open>k\<close>
  has for an empty input without a declared default: null for a number and for an enum,
  false for a boolean, the empty text for a string. (For the kind \<open>array\<close> it is a new
  empty array.)

  \<open>coerced h d v\<close>: the value \<open>v\<close> of an attribute \<open>d\<close> has the form coercion gives
  values of its kind. An empty value is the declared default, or without one the zero
  value of the kind; a value that is not empty is no function and is a text, a number, a
  boolean, an array or a member of the enum, as the kind says (a text is not none).
\<close>

definition declared_default :: "field_def \<Rightarrow> jsval" where
  "declared_default d =
     (if is_function (defaultValue d) then invoke (defaultValue d) else defaultValue d)"

definition zero_value :: "string \<Rightarrow> jsval \<Rightarrow> bool" where
  "zero_value k v =
     ((k = ''number'' \<and> v = Null) \<or> (k = ''boolean'' \<and> v = JBool False)
      \<or> (k = ''string'' \<and> v = JStr []) \<or> (k = ''enum'' \<and> v = Null))"

definition is_default :: "field_def \<Rightarrow> string \<Rightarrow> jsval \<Rightarrow> bool" where
  "is_default d k v =
     (if declared_default d \<noteq> Undefined then v = declared_default d else zero_value k v)"

definition of_kind :: "env \<Rightarrow> field_def \<Rightarrow> string \<Rightarrow> jsval \<Rightarrow> bool" where
  "of_kind h d k v =
     (if k = ''string'' then (case v of JStr _ \<Rightarrow> \<not> isNone h v | _ \<Rightarrow> False)
      else if k = ''number'' then (case v of JNum _ \<Rightarrow> True | JInf _ \<Rightarrow> True | _ \<Rightarrow> False)
      else if k = ''boolean'' then (case v of JBool _ \<Rightarrow> True | _ \<Rightarrow> False)
      else if k = ''array'' then isArray v
      else if k = ''enum'' then
        (case enumType d of None \<Rightarrow> False | Some e \<Rightarrow> hasValue h e v = Inr True)
      else True)"

definition coerced :: "env \<Rightarrow> field_def \<Rightarrow> jsval \<Rightarrow> bool" where
  "coerced h d v =
     (case ftype d of
        Attr k \<Rightarrow>
          v \<noteq> Undefined \<and>
          (if isEmpty h v then is_default d k v else \<not> is_function v \<and> of_kind h d k v)
      | _ \<Rightarrow> False)"

text \<open>\<open>rec_grows P rec\<close>: every nested call leaves a grown state.\<close>

definition rec_grows :: "program \<Rightarrow> (js_state \<Rightarrow> jsval \<Rightarrow> jsval result) \<Rightarrow> bool" where
  "rec_grows P rec = (\<forall>s v. grows P s (snd (rec s v)))"

text \<open>A basket and a customer, as \<open>create\<close> and \<open>deserialize\<close> make them, each with
  the state it is made in.\<close>

definition a_basket :: jsval where
  "a_basket = JInst 104 ''Basket'' [(''owner'', JStr []), (''items'', JArr 1 [JStr ''x''])]"

definition basket_state :: js_state where
  "basket_state = snd (create example_env shop run_state ''Basket''
     (JObj 0 [(''items'', JArr 1 [JStr ''x''])]))"

definition a_customer :: jsval where
  "a_customer = JInst 126 ''Customer''
     [(''firstName'', JStr []), (''lastName'', JStr []), (''dateOfBirth'', Undefined),
      (''address'', JInst 119 ''Address''
         [(''country'', JStr ''Australia''), (''postcode'', JStr []), (''state'', JStr []),
          (''streetAddress'', JStr []), (''suburb'', JStr [])]),
      (''otherAddresses'', JArr 125 [])]"

definition customer_state :: js_state where
  "customer_state = snd (deserialize example_env shop 2 run_state ''Customer''
     (JObj 0 [(''address'', JObj 1 [(''country'', JStr ''Australia'')])]))"

section \<open>The identities in a value\<close>

text \<open>
  \<open>ids_of v\<close>: the identities of the objects in \<open>v\<close>, itself included.
  \<open>top_ids v\<close>: the identity of \<open>v\<close> itself, when it is an object, an array or a
  function. \<open>uncopied v\<close>: the identities of the record instances and functions that
  \<open>v\<close> holds (directly or inside nested plain objects and arrays), and of the objects
  inside them: \<open>camelizeObject\<close> copies the plain objects and arrays of \<open>v\<close> and
  leaves these in place. \<open>host_ids h\<close>: the identities of the objects that are members
  of the prototypes of the host.
\<close>

fun ids_of :: "jsval \<Rightarrow> nat set"
  and ids_list :: "jsval list \<Rightarrow> nat set"
  and ids_props :: "(string \<times> jsval) list \<Rightarrow> nat set" where
  "ids_of (JArr i xs) = insert i (ids_list xs)"
| "ids_of (JObj i ps) = insert i (ids_props ps)"
| "ids_of (JInst i _ ps) = insert i (ids_props ps)"
| "ids_of (JFun i r) = insert i (ids_of r)"
| "ids_of _ = {}"
| "ids_list [] = {}"
| "ids_list (x # xs) = ids_of x \<union> ids_list xs"
| "ids_props [] = {}"
| "ids_props ((k, v) # ps) = ids_of v \<union> ids_props ps"

definition top_ids :: "jsval \<Rightarrow> nat set" where
  "top_ids v =
     (case v of JArr i _ \<Rightarrow> {i} | JObj i _ \<Rightarrow> {i} | JInst i _ _ \<Rightarrow> {i} | JFun i _ \<Rightarrow> {i}
      | _ \<Rightarrow> {})"

fun uncopied :: "jsval \<Rightarrow> nat set"
  and uncopied_list :: "jsval list \<Rightarrow> nat set"
  and uncopied_props :: "(string \<times> jsval) list \<Rightarrow> nat set" where
  "uncopied (JArr _ xs) = uncopied_list xs"
| "uncopied (JObj _ ps) = uncopied_props ps"
| "uncopied (JInst i c ps) = ids_of (JInst i c ps)"
| "uncopied (JFun i r) = ids_of (JFun i r)"
| "uncopied _ = {}"
| "uncopied_list [] = {}"
| "uncopied_list (x # xs) = uncopied x \<union> uncopied_list xs"
| "uncopied_props [] = {}"
| "uncopied_props ((k, v) # ps) = uncopied v \<union> uncopied_props ps"

definition host_ids :: "env \<Rightarrow> nat set" where
  "host_ids h = (\<Union>p k. ids_of (inherited h p k))"

text \<open>\<open>froze A st st'\<close>: from \<open>st\<close> to \<open>st'\<close> identities were only added, nothing was
  unfrozen, and of the objects that were there in \<open>st\<close> only objects from \<open>A\<close> were
  frozen.\<close>

definition froze :: "nat set \<Rightarrow> js_state \<Rightarrow> js_state \<Rightarrow> bool" where
  "froze A st st' =
     (next_id st \<le> next_id st' \<and> frozen st \<subseteq> frozen st'
      \<and> frozen st' \<subseteq> frozen st \<union> A \<union> {next_id st..})"

text \<open>\<open>rec_froze h rec\<close>: a nested call freezes, of the objects that were there before
  it, at most its argument, what \<open>camelizeObject\<close> leaves in place of it, and objects
  of the host.\<close>

definition rec_froze :: "env \<Rightarrow> (js_state \<Rightarrow> string \<Rightarrow> jsval \<Rightarrow> jsval result) \<Rightarrow> bool" where
  "rec_froze h rec =
     (\<forall>s t v. froze (top_ids v \<union> uncopied v \<union> host_ids h) s (snd (rec s t v)))"

text \<open>\<open>scalar v\<close>: the value is null, a boolean, a number or a text.\<close>

definition scalar :: "jsval \<Rightarrow> bool" where
  "scalar v =
     (case v of Null \<Rightarrow> True | JBool _ \<Rightarrow> True | JNum _ \<Rightarrow> True | JInf _ \<Rightarrow> True
      | JStr _ \<Rightarrow> True | _ \<Rightarrow> False)"

text \<open>An address, as \<open>create\<close> makes it, with the state it is made in.\<close>

definition an_address :: jsval where
  "an_address = JInst 107 ''Address''
     [(''country'', JStr ''Australia''), (''postcode'', JStr []), (''state'', JStr []),
      (''streetAddress'', JStr []), (''suburb'', JStr [])]"

definition address_state :: js_state where
  "address_state = snd (create example_env docs run_state ''Address''
     (JObj 0 [(''country'', JStr ''Australia'')]))"

text \<open>
  \<open>inst_depth v\<close>: how deep record instances are nested in \<open>v\<close> through the
  properties of instances and the elements of arrays, the nesting that the calls of
  \<open>serialize\<close> follow.
\<close>

fun inst_depth :: "jsval \<Rightarrow> nat"
  and inst_depth_list :: "jsval list \<Rightarrow> nat"
  and inst_depth_props :: "(string \<times> jsval) list \<Rightarrow> nat" where
  "inst_depth (JInst _ _ ps) = Suc (inst_depth_props ps)"
| "inst_depth (JArr _ xs) = inst_depth_list xs"
| "inst_depth _ = 0"
| "inst_depth_list [] = 0"
| "inst_depth_list (x # xs) = max (inst_depth x) (inst_depth_list xs)"
| "inst_depth_props [] = 0"
| "inst_depth_props ((k, v) # ps) = max (inst_depth v) (inst_depth_props ps)"

section \<open>Properties of \<open>getValueOrDefault\<close>\<close>

lemma trim_ws_no_ws: "\<forall>c \<in> set s. \<not> is_ws c \<Longrightarrow> trim_ws s = s"
proof -
  assume a: "\<forall>c \<in> set s. \<not> is_ws c"
  have "dropWhile is_ws s = s"
    using a by (cases s) auto
  moreover have "dropWhile is_ws (rev s) = rev s"
    using a by (cases "rev s") (auto dest: arg_cong [where f = set])
  ultimately show ?thesis by (simp add: trim_ws_def)
qed







section \<open>Properties of \<open>isEqual\<close> and \<open>getFieldDefs\<close>\<close>

text \<open>
  C2. The code of \<open>isEqual\<close> does not return on the instances \<open>create\<close> makes:
  comparing a new \<open>Address\<close> with itself raises a \<open>TypeError\<close>, where the claim has
  the answer true (the fields are equal by \<open>===\<close>).
\<close>

theorem isEqual_raises:
  "(case create example_env docs init_state ''Address'' Undefined of
      (Inr a, st) \<Rightarrow> isEqual example_env a a = Inl TypeError \<and> fieldwise_equal
          [''country'', ''postcode'', ''state'', ''streetAddress'', ''suburb''] a a
    | (Inl e, st) \<Rightarrow> False)"
  by code_simp

text \<open>
  C3. After the schema of \<open>Party\<close> is derived, deriving the schema of \<open>Person\<close>,
  which extends \<open>Party\<close>, returns the schema object of \<open>Party\<close> and leaves the class
  \<open>Person\<close> without a schema of its own; derived first, the schema of \<open>Person\<close>
  has both fields.
\<close>

theorem getFieldDefs_inherits_cache:
  "(case getFieldDefs parties init_state ''Party'' of
      (s1, st1) \<Rightarrow>
        (case getFieldDefs parties st1 ''Person'' of
           (s2, st2) \<Rightarrow> s2 = s1 \<and> map fst (snd s2) = [''id'']
              \<and> map_of (cache st2) ''Person'' = None))
   \<and> map fst (snd (fst (getFieldDefs parties init_state ''Person''))) = [''id'', ''name'']"
  by code_simp

section \<open>Property lists\<close>

lemma map_of_set_prop: "map_of (set_prop k v ps) = (map_of ps)(k \<mapsto> v)"
  by (induction ps) (auto simp: fun_eq_iff)

lemma get_prop_set_prop:
  "get_prop (set_prop k v ps) k' = (if k' = k then v else get_prop ps k')"
  by (simp add: get_prop_def map_of_set_prop)

lemma keys_set_prop: "set (map fst (set_prop k v ps)) = insert k (set (map fst ps))"
  by (induction ps) auto

lemma distinct_set_prop:
  "distinct (map fst ps) \<Longrightarrow> distinct (map fst (set_prop k v ps))"
proof (induction ps)
  case Nil
  then show ?case by simp
next
  case (Cons p ps)
  then show ?case
    using keys_set_prop [of k v ps] by (cases p) auto
qed

lemma map_of_assign: "map_of (assign t s) = map_of t ++ map_of (rev s)"
  unfolding assign_def
proof (induction s arbitrary: t)
  case Nil
  then show ?case by simp
next
  case (Cons p s)
  obtain k v where p: "p = (k, v)" by (cases p)
  show ?case
    by (simp add: p Cons.IH map_of_set_prop fun_eq_iff map_add_def split: option.splits)
qed

lemma distinct_assign:
  "distinct (map fst t) \<Longrightarrow> distinct (map fst (assign t s))"
  unfolding assign_def
  by (induction s arbitrary: t) (auto simp: distinct_set_prop)

lemma map_of_rev_distinct: "distinct (map fst xs) \<Longrightarrow> map_of (rev xs) = map_of xs"
  by (metis distinct_rev map_of_inject_set rev_map set_rev)

lemma get_prop_assign:
  "distinct (map fst s) \<Longrightarrow>
   get_prop (assign t s) k = (case map_of s k of Some v \<Rightarrow> v | None \<Rightarrow> get_prop t k)"
  by (simp add: get_prop_def map_of_assign map_of_rev_distinct map_add_def split: option.splits)

lemma lookup_set_prop:
  "lookup h p (set_prop k v ps) k' = (if k' = k then v else lookup h p ps k')"
  by (simp add: lookup_def map_of_set_prop)

lemma lookup_own: "map_of ps k = Some v \<Longrightarrow> lookup h p ps k = v"
  by (simp add: lookup_def)

lemma get_prop_own: "map_of ps k = Some v \<Longrightarrow> get_prop ps k = v"
  by (simp add: get_prop_def)

section \<open>Defined values\<close>

text \<open>The five scalar kinds.\<close>

lemma fresh_simps [simp]:
  "fst (fresh st) = next_id st" "next_id (snd (fresh st)) = Suc (next_id st)"
  "frozen (snd (fresh st)) = frozen st" "cache (snd (fresh st)) = cache st"
  "warnings (snd (fresh st)) = warnings st"
  by (simp_all add: fresh_def)

lemma default_by_type_defined:
  "default_by_type st t = Some (v, st') \<Longrightarrow> v \<noteq> Undefined"
  by (auto simp: default_by_type_def new_array_def fresh_def split: field_type.splits if_splits)

lemma parseFloat_defined: "parseFloat h v \<noteq> Undefined"
  by (simp add: parseFloat_def of_number_def split: jsval.splits number.splits)

lemma coerce_by_type_defined:
  assumes "coerce_by_type h st d val = (Inr v, st')"
    and "ftype d = Attr a" and "a \<in> {''number'', ''boolean'', ''string'', ''array'', ''enum''}"
    and "val \<noteq> Undefined"
  shows "v \<noteq> Undefined"
  using assms
  by (auto simp: coerce_by_type_def new_array_def fresh_def parseFloat_defined assert_def
      split: if_splits sum.splits option.splits jsval.splits)

lemma getValueOrDefault_defined:
  assumes "getValueOrDefault h st d val = (Inr v, st')"
    and "isEmpty h Undefined"
    and "ftype d = Attr a" and "a \<in> {''number'', ''boolean'', ''string'', ''array'', ''enum''}"
    and "\<forall>j. val \<noteq> JFun j Undefined"
  shows "v \<noteq> Undefined"
proof (cases "isEmpty h val")
  case True
  show ?thesis
  proof (cases "(if is_function (defaultValue d) then invoke (defaultValue d)
                 else defaultValue d) = Undefined")
    case u: True
    obtain w st1 where "default_by_type st (ftype d) = Some (w, st1)"
      using assms(3,4) by (auto simp: default_by_type_def new_array_def fresh_def)
    then show ?thesis
      using assms(1) True u default_by_type_defined [of st "ftype d" w st1]
      by (simp add: getValueOrDefault_def Let_def)
  next
    case False
    then show ?thesis
      using assms(1) True by (auto simp: getValueOrDefault_def Let_def)
  qed
next
  case False
  then have nu: "val \<noteq> Undefined" using assms(2) by auto
  show ?thesis
  proof (cases "is_function val")
    case True
    then obtain j r where "val = JFun j r" by (cases val) auto
    then show ?thesis
      using assms(1,5) False by (auto simp: getValueOrDefault_def)
  next
    case nf: False
    then show ?thesis
      using assms(1) False coerce_by_type_defined [OF _ assms(3,4) nu]
      by (simp add: getValueOrDefault_def)
  qed
qed

lemma create_fields_Cons:
  "create_fields h st ((k, d) # ds) iv = (Inr vals, st') \<Longrightarrow>
   \<exists>v st1. create_field h st d (supplied h iv k d) = (Inr v, st1)
       \<and> create_fields h st1 ds (set_prop k v iv) = (Inr vals, st')"
  by (auto split: prod.splits sum.splits)

lemma create_fields_other:
  "create_fields h st defs iv = (Inr vals, st') \<Longrightarrow> k \<notin> fst ` set defs \<Longrightarrow>
   get_prop vals k = get_prop iv k"
proof (induction defs arbitrary: st iv)
  case Nil
  then show ?case by simp
next
  case (Cons p defs)
  obtain k0 d0 where p: "p = (k0, d0)" by (cases p)
  from Cons.prems(2) p have ne: "k \<noteq> k0" and nin: "k \<notin> fst ` set defs" by auto
  from create_fields_Cons [OF Cons.prems(1) [unfolded p]] obtain st1 v where
    step: "create_fields h st1 defs (set_prop k0 v iv) = (Inr vals, st')"
    by blast
  from Cons.IH [OF step nin] ne show ?case
    by (simp add: get_prop_set_prop)
qed

lemma create_fields_distinct:
  "create_fields h st defs iv = (Inr vals, st') \<Longrightarrow> distinct (map fst iv) \<Longrightarrow>
   distinct (map fst vals)"
proof (induction defs arbitrary: st iv)
  case Nil
  then show ?case by simp
next
  case (Cons p defs)
  obtain k0 d0 where p: "p = (k0, d0)" by (cases p)
  from create_fields_Cons [OF Cons.prems(1) [unfolded p]] obtain st1 v where
    step: "create_fields h st1 defs (set_prop k0 v iv) = (Inr vals, st')"
    by blast
  from Cons.IH [OF step] Cons.prems(2) show ?case
    by (simp add: distinct_set_prop)
qed

text \<open>The value stored for one key is the value \<open>create_field\<close> makes of what was
  supplied for it.\<close>

lemma create_fields_value:
  assumes "create_fields h st defs iv = (Inr vals, st')"
    and "distinct (map fst defs)" and "(k, d) \<in> set defs"
  shows "\<exists>s s'. create_field h s d (supplied h iv k d) = (Inr (get_prop vals k), s')"
  using assms
proof (induction defs arbitrary: st iv)
  case Nil
  then show ?case by simp
next
  case (Cons p defs)
  obtain k0 d0 where p: "p = (k0, d0)" by (cases p)
  from create_fields_Cons [OF Cons.prems(1) [unfolded p]] obtain st1 v where
    hd: "create_field h st d0 (supplied h iv k0 d0) = (Inr v, st1)" and
    step: "create_fields h st1 defs (set_prop k0 v iv) = (Inr vals, st')"
    by blast
  show ?case
  proof (cases "(k, d) = (k0, d0)")
    case True
    then have kd: "k0 = k" "d0 = d" by auto
    from Cons.prems(2) p kd have nin: "k \<notin> fst ` set defs" by auto
    from create_fields_other [OF step nin] have "get_prop vals k = v"
      by (simp add: kd get_prop_set_prop)
    with hd kd show ?thesis by blast
  next
    case False
    with Cons.prems(3) p have mem: "(k, d) \<in> set defs" by auto
    with Cons.prems(2) p have ne: "k \<noteq> k0" by (auto simp: image_iff)
    have s: "supplied h (set_prop k0 v iv) k d = supplied h iv k d"
      using ne by (simp add: supplied_def lookup_set_prop)
    from Cons.IH [OF step _ mem] Cons.prems(2) p s show ?thesis by simp
  qed
qed

lemma create_field_defined:
  assumes "create_field h st d val = (Inr v, st')"
    and "isEmpty h Undefined"
    and "(\<exists>t. ftype d = FragmentArray t) \<or>
         (\<exists>a \<in> {''number'', ''boolean'', ''string'', ''array'', ''enum''}. ftype d = Attr a)"
    and "\<forall>j. val \<noteq> JFun j Undefined"
  shows "v \<noteq> Undefined"
  using assms(3)
proof
  assume "\<exists>t. ftype d = FragmentArray t"
  then show ?thesis
    using assms(1)
    by (auto simp: create_field_def new_array_def fresh_def split: if_splits)
next
  assume "\<exists>a \<in> {''number'', ''boolean'', ''string'', ''array'', ''enum''}. ftype d = Attr a"
  then obtain a where a: "a \<in> {''number'', ''boolean'', ''string'', ''array'', ''enum''}"
    "ftype d = Attr a" by blast
  from assms(1) a(2) have "getValueOrDefault h st d val = (Inr v, st')"
    by (simp add: create_field_def)
  from getValueOrDefault_defined [OF this assms(2) a(2) a(1) assms(4)] show ?thesis .
qed

lemma create_result:
  assumes "create h P st c props = (Inr inst, st')"
  shows "\<exists>st1 st2 vals ps.
     create_fields h st1 (snd (fst (getFieldDefs P st c))) (initial_values props) = (Inr vals, st2)
     \<and> inst = JInst (next_id st2) c (assign ps vals)"
proof -
  obtain sch st1 where g: "getFieldDefs P st c = (sch, st1)" by (cases "getFieldDefs P st c")
  from assms g obtain vals st2 where
    cf: "create_fields h st1 (snd sch) (initial_values props) = (Inr vals, st2)"
    by (auto simp: create_def split: prod.splits sum.splits)
  from assms g cf obtain ps where "inst = JInst (next_id st2) c (assign ps vals)"
    by (auto simp: create_def construct_def fresh_def split: prod.splits)
  with cf g show ?thesis by auto
qed

section \<open>Properties of \<open>create\<close>\<close>

lemma distinct_initial_values: "distinct (map fst (initial_values props))"
  by (simp add: initial_values_def distinct_assign)
section \<open>The schema of a class, once derived, stays\<close>

lemma chain_split:
  "x \<in> set (chain P n c) \<Longrightarrow> \<exists>pre j. chain P n c = pre @ chain P j x \<and> x \<notin> set pre \<and> j \<le> n"
proof (induction n arbitrary: c)
  case 0
  then show ?case by simp
next
  case (Suc n)
  show ?case
  proof (cases "c = x")
    case True
    then show ?thesis by (intro exI [of _ "[]"] exI [of _ "Suc n"]) simp
  next
    case False
    from Suc.prems False have "\<exists>d s. map_of P c = Some d \<and> superclass d = Some s
      \<and> x \<in> set (chain P n s)"
      by (cases "map_of P c"; cases "superclass (the (map_of P c))") auto
    then obtain d s where d: "map_of P c = Some d" "superclass d = Some s"
      and x: "x \<in> set (chain P n s)"
      by blast
    from Suc.IH [OF x] obtain pre j where
      "chain P n s = pre @ chain P j x" "x \<notin> set pre" "j \<le> n" by blast
    with d False show ?thesis
      by (intro exI [of _ "c # pre"] exI [of _ j]) simp
  qed
qed

lemma chain_mono: "j \<le> n \<Longrightarrow> set (chain P j x) \<subseteq> set (chain P n x)"
proof (induction j arbitrary: n x)
  case 0
  then show ?case by simp
next
  case (Suc j)
  then obtain n' where n: "n = Suc n'" "j \<le> n'" by (cases n) auto
  with Suc.IH [of n'] show ?case
    by (auto split: option.splits)
qed

lemma static_fieldDefs_None:
  "static_fieldDefs P st c = None \<longleftrightarrow> (\<forall>a \<in> set (ancestors P c). \<not> cached st a)"
proof (cases "filter (cached st) (ancestors P c)")
  case Nil
  then show ?thesis by (simp add: static_fieldDefs_def filter_empty_conv)
next
  case (Cons a as)
  then have "a \<in> set (filter (cached st) (ancestors P c))" by simp
  then have "cached st a" "a \<in> set (ancestors P c)" by simp_all
  with Cons show ?thesis by (auto simp: static_fieldDefs_def cached_def)
qed

lemma static_fieldDefs_Some:
  "static_fieldDefs P st c = Some sch \<Longrightarrow>
   \<exists>a as. filter (cached st) (ancestors P c) = a # as \<and> map_of (cache st) a = Some sch"
  by (auto simp: static_fieldDefs_def split: list.splits)

lemma filter_cached_eq:
  "x \<notin> set xs \<Longrightarrow> (\<And>a. a \<noteq> x \<Longrightarrow> cached st' a = cached st a) \<Longrightarrow>
   filter (cached st') xs = filter (cached st) xs"
  by (induction xs) auto

text \<open>Caching a schema for a class none of whose ancestors has one leaves the schema every
  other class reads as it is.\<close>

lemma static_fieldDefs_add:
  assumes x: "static_fieldDefs P st x = None"
    and c: "static_fieldDefs P st c = Some sch"
    and st': "cache st' = set_prop x s (cache st)"
  shows "static_fieldDefs P st' c = Some sch"
proof -
  have other: "\<And>a. a \<noteq> x \<Longrightarrow> map_of (cache st') a = map_of (cache st) a"
    by (simp add: st' map_of_set_prop)
  then have other': "\<And>a. a \<noteq> x \<Longrightarrow> cached st' a = cached st a"
    by (simp add: cached_def)
  show ?thesis
  proof (cases "x \<in> set (ancestors P c)")
    case False
    then have "filter (cached st') (ancestors P c) = filter (cached st) (ancestors P c)"
      by (rule filter_cached_eq) (rule other')
    moreover from static_fieldDefs_Some [OF c] obtain a as where
      f: "filter (cached st) (ancestors P c) = a # as" and a: "map_of (cache st) a = Some sch"
      by blast
    moreover from f have "a \<in> set (ancestors P c)"
      by (metis filter_is_subset list.set_intros(1) subsetD)
    with False have "a \<noteq> x" by auto
    ultimately show ?thesis
      by (simp add: static_fieldDefs_def other)
  next
    case True
    from chain_split [OF True [unfolded ancestors_def]] obtain pre j where
      sp: "ancestors P c = pre @ chain P j x" and pre: "x \<notin> set pre" and j: "j \<le> length P"
      by (auto simp: ancestors_def)
    have suf: "\<forall>a \<in> set (chain P j x). \<not> cached st a"
      using x chain_mono [OF j, of P x] by (auto simp: static_fieldDefs_None ancestors_def)
    then have fs: "filter (cached st) (chain P j x) = []"
      by (simp add: filter_empty_conv)
    from static_fieldDefs_Some [OF c] obtain a as where
      f: "filter (cached st) pre = a # as"
      and a: "map_of (cache st) a = Some sch"
      by (auto simp: sp fs)
    from pre have "filter (cached st') pre = filter (cached st) pre"
      by (rule filter_cached_eq) (rule other')
    moreover from f have "a \<in> set pre"
      by (metis filter_is_subset list.set_intros(1) subsetD)
    with pre have "a \<noteq> x" by auto
    ultimately show ?thesis
      using f a by (simp add: static_fieldDefs_def sp other)
  qed
qed

section \<open>What the operations do to the state\<close>

lemma allocs_refl [simp]: "allocs st st"
  by (simp add: allocs_def)

lemma allocs_trans: "allocs a b \<Longrightarrow> allocs b c \<Longrightarrow> allocs a c"
  by (auto simp: allocs_def)

lemma allocs_fresh: "allocs st (snd (fresh st))"
  by (simp add: allocs_def fresh_def)

lemma allocs_new_array: "new_array st xs = (a, st') \<Longrightarrow> allocs st st' \<and> a = JArr (next_id st) xs"
  by (auto simp: new_array_def fresh_def allocs_def)

lemma allocs_def_objects: "def_objects st ds = (ps, st') \<Longrightarrow> allocs st st'"
proof (induction ds arbitrary: st ps)
  case Nil
  then show ?case by simp
next
  case (Cons p ds)
  obtain k d where p: "p = (k, d)" by (cases p)
  from Cons.prems obtain qs where "def_objects (snd (fresh st)) ds = (qs, st')"
    by (auto simp: p fresh_def split: prod.splits)
  from Cons.IH [OF this] allocs_fresh [of st] show ?case
    by (rule allocs_trans [rotated])
qed

lemma allocs_construct: "construct P st c = ((i, ps), st') \<Longrightarrow> allocs st st' \<and> i = next_id st"
proof -
  assume "construct P st c = ((i, ps), st')"
  then have d: "def_objects (snd (fresh st)) (instance_fields P c) = (ps, st')" and i: "i = next_id st"
    by (auto simp: construct_def fresh_def split: prod.splits)
  from allocs_trans [OF allocs_fresh allocs_def_objects [OF d]] i show ?thesis by simp
qed

lemma allocs_default_by_type: "default_by_type st t = Some (v, st') \<Longrightarrow> allocs st st'"
  by (auto simp: default_by_type_def new_array_def fresh_def allocs_def
      split: if_splits field_type.splits)

lemma coerce_by_type_state:
  "snd (coerce_by_type h st d val) = st \<or> snd (coerce_by_type h st d val) = snd (fresh st)"
proof (cases "ftype d")
  case (Attr k)
  then show ?thesis
    by (simp add: coerce_by_type_def new_array_def fresh_def assert_def
        split: option.splits sum.splits)
qed (simp_all add: coerce_by_type_def)

lemma allocs_coerce_by_type: "coerce_by_type h st d val = (r, st') \<Longrightarrow> allocs st st'"
  using coerce_by_type_state [of h st d val] allocs_fresh [of st] by auto

lemma allocs_getValueOrDefault: "getValueOrDefault h st d val = (r, st') \<Longrightarrow> allocs st st'"
  by (auto simp: getValueOrDefault_def Let_def
      dest: allocs_default_by_type allocs_coerce_by_type
      split: if_splits option.splits prod.splits)

lemma allocs_create_field: "create_field h st d val = (r, st') \<Longrightarrow> allocs st st'"
  by (auto simp: create_field_def new_array_def fresh_def
      dest: allocs_getValueOrDefault split: if_splits field_type.splits)
    (simp_all add: allocs_def)

lemma allocs_create_fields: "create_fields h st defs iv = (r, st') \<Longrightarrow> allocs st st'"
proof (induction defs arbitrary: st iv)
  case Nil
  then show ?case by simp
next
  case (Cons p defs)
  obtain k d where p: "p = (k, d)" by (cases p)
  obtain r1 st1 where f: "create_field h st d (supplied h iv k d) = (r1, st1)"
    by (cases "create_field h st d (supplied h iv k d)")
  show ?case
  proof (cases r1)
    case (Inl e)
    with Cons.prems f p allocs_create_field [OF f] show ?thesis by simp
  next
    case (Inr v)
    with Cons.prems f p have "create_fields h st1 defs (set_prop k v iv) = (r, st')" by simp
    from allocs_trans [OF allocs_create_field [OF f] Cons.IH [OF this]] show ?thesis .
  qed
qed

lemma allocs_json_copy:
  "json_copy st v = (w, st') \<Longrightarrow> allocs st st'"
  "json_copy_list st xs = (ys, st'') \<Longrightarrow> allocs st st''"
  "json_copy_props st ps = (qs, st''') \<Longrightarrow> allocs st st'''"
  by (induction st v and st xs and st ps arbitrary: w st' and ys st'' and qs st'''
      rule: json_copy_json_copy_list_json_copy_props.induct)
    (auto simp: fresh_def split: prod.splits if_splits
      intro: allocs_trans [OF allocs_fresh [unfolded fresh_def, simplified]] allocs_trans)

lemma static_fieldDefs_cache:
  assumes "cache st' = cache st"
  shows "static_fieldDefs P st' c = static_fieldDefs P st c"
proof -
  have "cached st' = cached st"
    using assms by (simp add: cached_def fun_eq_iff)
  then show ?thesis
    by (simp only: static_fieldDefs_def assms)
qed

lemma grows_refl [simp]: "grows P st st"
  by (simp add: grows_def keeps_schemas_def)

lemma keeps_schemas_trans:
  assumes "keeps_schemas P a b" and "keeps_schemas P b c"
  shows "keeps_schemas P a c"
  unfolding keeps_schemas_def
proof
  fix x
  show "static_fieldDefs P a x = None \<or> static_fieldDefs P c x = static_fieldDefs P a x"
  proof (cases "static_fieldDefs P a x")
    case None
    then show ?thesis by simp
  next
    case (Some s)
    from assms(1) have "static_fieldDefs P a x = None \<or> static_fieldDefs P b x = static_fieldDefs P a x"
      unfolding keeps_schemas_def by (rule spec)
    with Some have b: "static_fieldDefs P b x = Some s" by simp
    from assms(2) have "static_fieldDefs P b x = None \<or> static_fieldDefs P c x = static_fieldDefs P b x"
      unfolding keeps_schemas_def by (rule spec)
    with b have "static_fieldDefs P c x = Some s" by simp
    with Some show ?thesis by simp
  qed
qed

lemma grows_trans: "grows P a b \<Longrightarrow> grows P b c \<Longrightarrow> grows P a c"
  using keeps_schemas_trans [of P a b c] by (simp add: grows_def)

lemma allocs_grows:
  assumes "allocs st st'"
  shows "grows P st st'"
proof -
  from assms have "cache st' = cache st" by (simp add: allocs_def)
  then have "\<And>c. static_fieldDefs P st' c = static_fieldDefs P st c"
    by (rule static_fieldDefs_cache)
  then have "keeps_schemas P st st'" by (simp add: keeps_schemas_def)
  with assms show ?thesis by (simp add: grows_def allocs_def)
qed

lemma grows_schema:
  "grows P st st' \<Longrightarrow> static_fieldDefs P st c = Some sch \<Longrightarrow> static_fieldDefs P st' c = Some sch"
proof -
  assume "grows P st st'" and s: "static_fieldDefs P st c = Some sch"
  then have "static_fieldDefs P st c = None \<or> static_fieldDefs P st' c = static_fieldDefs P st c"
    unfolding grows_def keeps_schemas_def by blast
  with s show ?thesis by simp
qed

lemma getFieldDefs_cached:
  "static_fieldDefs P st c = Some sch \<Longrightarrow> getFieldDefs P st c = (sch, st)"
  by (simp add: getFieldDefs_def)

lemma ancestors_head: "map_of P c \<noteq> None \<Longrightarrow> \<exists>as. ancestors P c = c # as"
proof -
  assume a: "map_of P c \<noteq> None"
  then have "P \<noteq> []" by auto
  then obtain n where "length P = Suc n" by (cases P) auto
  with a show ?thesis by (auto simp: ancestors_def)
qed

lemma getFieldDefs_grows:
  assumes "getFieldDefs P st c = (sch, st')"
  shows "grows P st st'" and "map_of P c \<noteq> None \<Longrightarrow> static_fieldDefs P st' c = Some sch"
proof -
  show "grows P st st'"
  proof (cases "static_fieldDefs P st c")
    case (Some s)
    with assms show ?thesis by (simp add: getFieldDefs_def)
  next
    case None
    obtain i ps st1 where c: "construct P st c = ((i, ps), st1)"
      by (cases "construct P st c") auto
    from allocs_construct [OF c] have a1: "allocs st st1" by simp
    from assms None c have st': "st' = (snd (fresh st1))\<lparr>cache := set_prop c sch (cache (snd (fresh st1)))\<rparr>"
      by (auto simp: getFieldDefs_def fresh_def Let_def)
    have a2: "allocs st (snd (fresh st1))"
      using allocs_trans [OF a1 allocs_fresh] .
    have keep: "keeps_schemas P st st'"
      unfolding keeps_schemas_def
    proof
      fix c'
      show "static_fieldDefs P st c' = None \<or> static_fieldDefs P st' c' = static_fieldDefs P st c'"
      proof (cases "static_fieldDefs P st c'")
        case None
        then show ?thesis by simp
      next
        case (Some s)
        have "cache st' = set_prop c sch (cache st)"
          using a2 by (simp add: st' allocs_def)
        from static_fieldDefs_add [OF None Some this] Some show ?thesis by simp
      qed
    qed
    from a2 have "next_id st \<le> next_id st'" "frozen st' = frozen st"
      by (simp_all add: st' allocs_def)
    with keep show ?thesis
      by (simp add: grows_def)
  qed
next
  assume in_P: "map_of P c \<noteq> None"
  show "static_fieldDefs P st' c = Some sch"
  proof (cases "static_fieldDefs P st c")
    case (Some s)
    with assms show ?thesis by (simp add: getFieldDefs_def)
  next
    case None
    obtain i ps st1 where c: "construct P st c = ((i, ps), st1)"
      by (cases "construct P st c") auto
    from assms None c have "cache st' = set_prop c sch (cache st1)"
      by (auto simp: getFieldDefs_def fresh_def Let_def)
    then have "map_of (cache st') c = Some sch"
      by (simp add: map_of_set_prop)
    moreover from ancestors_head [OF in_P] obtain as where "ancestors P c = c # as" ..
    ultimately show ?thesis
      by (simp add: static_fieldDefs_def cached_def)
  qed
qed

lemma create_grows: "create h P st c props = (r, st') \<Longrightarrow> grows P st st'"
proof -
  assume a: "create h P st c props = (r, st')"
  obtain sch st1 where g: "getFieldDefs P st c = (sch, st1)" by (cases "getFieldDefs P st c")
  obtain r2 st2 where f: "create_fields h st1 (snd sch) (initial_values props) = (r2, st2)"
    by (cases "create_fields h st1 (snd sch) (initial_values props)")
  have g12: "grows P st st2"
    using grows_trans [OF getFieldDefs_grows(1) [OF g] allocs_grows [OF allocs_create_fields [OF f]]] .
  show ?thesis
  proof (cases r2)
    case (Inl e)
    with a g f g12 show ?thesis by (simp add: create_def)
  next
    case (Inr vals)
    obtain i ps st3 where c: "construct P st2 c = ((i, ps), st3)"
      by (cases "construct P st2 c") auto
    with a g f Inr have "st' = st3" by (simp add: create_def)
    with allocs_construct [OF c] have "grows P st2 st'"
      by (simp add: allocs_grows)
    with g12 show ?thesis by (rule grows_trans)
  qed
qed

section \<open>Coerced values are kept\<close>

lemma JSON_parse_boolean: "JSON_parse h (ToString h (JBool b)) = Inr (JBool b)"
proof -
  have t: "trim_ws ''true'' = ''true''" and f: "trim_ws ''false'' = ''false''"
    by (rule trim_ws_no_ws, simp add: is_ws_def)+
  show ?thesis
    by (cases b) (simp_all add: ToString_def JSON_parse_def t f)
qed

lemma coerce_by_type_of_kind:
  assumes "ftype d = Attr k" and "of_kind h d k v"
  shows "coerce_by_type h st d v = (Inr v, st)"
proof -
  consider "k = ''string''" | "k = ''number''" | "k = ''boolean''" | "k = ''array''"
    | "k = ''enum''" | "k \<notin> {''string'', ''number'', ''boolean'', ''array'', ''enum''}"
    by auto
  then show ?thesis
  proof cases
    case 1
    with assms show ?thesis
      by (cases v) (simp_all add: coerce_by_type_def of_kind_def ToString_def)
  next
    case 2
    with assms show ?thesis
      by (cases v) (simp_all add: coerce_by_type_def of_kind_def isNaN_def parseFloat_def)
  next
    case 3
    with assms show ?thesis
      by (cases v) (simp_all add: coerce_by_type_def of_kind_def JSON_parse_boolean)
  next
    case 4
    with assms show ?thesis
      by (simp add: coerce_by_type_def of_kind_def)
  next
    case 5
    with assms show ?thesis
      by (auto simp: coerce_by_type_def of_kind_def assert_def split: option.splits)
  next
    case 6
    with assms show ?thesis
      by (simp add: coerce_by_type_def)
  qed
qed

lemma getValueOrDefault_coerced:
  assumes "coerced h d v"
  shows "getValueOrDefault h st d v = (Inr v, st)"
proof -
  from assms obtain k where k: "ftype d = Attr k" and nu: "v \<noteq> Undefined"
    and c: "if isEmpty h v then is_default d k v else \<not> is_function v \<and> of_kind h d k v"
    by (auto simp: coerced_def split: field_type.splits)
  show ?thesis
  proof (cases "isEmpty h v")
    case True
    with c have dflt: "is_default d k v" by simp
    show ?thesis
    proof (cases "declared_default d = Undefined")
      case False
      with dflt have "v = declared_default d" by (simp add: is_default_def)
      with True False show ?thesis
        by (simp add: getValueOrDefault_def declared_default_def)
    next
      case u: True
      with dflt have "zero_value k v" by (simp add: is_default_def)
      then have "default_by_type st (ftype d) = Some (v, st)"
        using k by (auto simp: zero_value_def default_by_type_def)
      with True u show ?thesis
        by (simp add: getValueOrDefault_def declared_default_def)
    qed
  next
    case False
    with c coerce_by_type_of_kind [OF k] show ?thesis
      by (simp add: getValueOrDefault_def)
  qed
qed

lemma create_field_coerced:
  assumes "coerced h d v"
  shows "create_field h st d v = (Inr v, st)"
proof -
  from assms obtain k where "ftype d = Attr k"
    by (auto simp: coerced_def split: field_type.splits)
  with getValueOrDefault_coerced [OF assms] show ?thesis
    by (simp add: create_field_def)
qed

lemma create_field_fragment_instance:
  assumes "ftype d = Fragment t" and "\<not> isEmpty h (JInst i c ps)"
  shows "create_field h st d (JInst i c ps) = (Inr (JInst i c ps), st)"
  using assms by (simp add: create_field_def getValueOrDefault_def coerce_by_type_def)

lemma create_field_array:
  assumes "ftype d = FragmentArray t"
  shows "create_field h st d (JArr i xs) = (Inr (JArr i xs), st)"
  using assms by (simp add: create_field_def)

lemma grows_next_id: "grows P st st' \<Longrightarrow> next_id st \<le> next_id st'"
  by (simp add: grows_def)

lemma create_instance:
  assumes "create h P st c props = (Inr inst, st')"
  shows "\<exists>j ps. inst = JInst j c ps \<and> next_id st \<le> j"
proof -
  obtain sch st1 where g: "getFieldDefs P st c = (sch, st1)" by (cases "getFieldDefs P st c")
  from assms g obtain vals st2 where
    cf: "create_fields h st1 (snd sch) (initial_values props) = (Inr vals, st2)"
    by (auto simp: create_def split: prod.splits sum.splits)
  from assms g cf obtain ps where i: "inst = JInst (next_id st2) c (assign ps vals)"
    by (auto simp: create_def construct_def fresh_def split: prod.splits)
  from getFieldDefs_grows(1) [OF g] allocs_create_fields [OF cf]
  have "next_id st \<le> next_id st2"
    by (simp add: grows_def allocs_def)
  with i show ?thesis by blast
qed

section \<open>The values of \<open>getValueOrDefault\<close>\<close>

lemma getValueOrDefault_default:
  "isEmpty h val \<Longrightarrow> declared_default d \<noteq> Undefined \<Longrightarrow>
   getValueOrDefault h st d val = (Inr (declared_default d), st)"
  by (simp add: getValueOrDefault_def declared_default_def)

lemma getValueOrDefault_zero:
  "isEmpty h val \<Longrightarrow> declared_default d = Undefined \<Longrightarrow> ftype d = Attr a \<Longrightarrow>
   zero_value a z \<Longrightarrow> getValueOrDefault h st d val = (Inr z, st)"
  by (auto simp: getValueOrDefault_def declared_default_def zero_value_def default_by_type_def)

lemma getValueOrDefault_new_array:
  "isEmpty h val \<Longrightarrow> declared_default d = Undefined \<Longrightarrow> ftype d = Attr ''array'' \<Longrightarrow>
   getValueOrDefault h st d val = (Inr (JArr (next_id st) []), snd (fresh st))"
  by (simp add: getValueOrDefault_def declared_default_def default_by_type_def new_array_def
      fresh_def)

lemma getValueOrDefault_producer:
  "\<not> isEmpty h val \<Longrightarrow> is_function val \<Longrightarrow>
   getValueOrDefault h st d val = (Inr (invoke val), st)"
  by (simp add: getValueOrDefault_def)

lemma invoke_no_function: "\<not> is_function v \<Longrightarrow> invoke v = v"
  by (cases v) simp_all

lemma getValueOrDefault_fragment:
  "ftype d = Fragment t \<Longrightarrow>
   getValueOrDefault h st d val =
     (Inr (if isEmpty h val then (if declared_default d \<noteq> Undefined then declared_default d
                                   else val)
           else invoke val), st)"
  by (simp add: getValueOrDefault_def declared_default_def default_by_type_def
      coerce_by_type_def invoke_no_function)

lemma getValueOrDefault_other_kind:
  "isEmpty h val \<Longrightarrow> declared_default d = Undefined \<Longrightarrow> ftype d = Attr a \<Longrightarrow>
   a \<notin> {''number'', ''boolean'', ''string'', ''array'', ''enum''} \<Longrightarrow>
   getValueOrDefault h st d val = (Inr val, st)"
  by (simp add: getValueOrDefault_def declared_default_def default_by_type_def
      coerce_by_type_def)



lemma coerce_by_type_no_function:
  assumes "coerce_by_type h st d val = (Inr v, st')"
    and "ftype d = Attr a" and "a \<in> {''number'', ''boolean'', ''string'', ''array'', ''enum''}"
    and "\<not> is_function val"
  shows "\<not> is_function v"
proof -
  from assms(3) consider "a = ''string''" | "a = ''number''" | "a = ''boolean''"
    | "a = ''array''" | "a = ''enum''" by auto
  then show ?thesis
  proof cases
    case 1
    with assms(1,2) show ?thesis by (auto simp: coerce_by_type_def split: if_splits)
  next
    case 2
    have "\<not> is_function (parseFloat h val)"
      by (simp add: parseFloat_def of_number_def split: jsval.splits number.splits)
    with 2 assms(1,2) show ?thesis
      by (auto simp: coerce_by_type_def split: if_splits)
  next
    case 3
    with assms(1,2) show ?thesis
      by (cases "JSON_parse h (ToString h val)") (auto simp: coerce_by_type_def)
  next
    case 4
    with assms(1,2,4) show ?thesis
      by (cases "isArray val") (auto simp: coerce_by_type_def new_array_def fresh_def)
  next
    case 5
    with assms(1,2) have "v = val"
      by (simp add: coerce_by_type_def assert_def split: option.splits sum.splits if_splits)
    with assms(4) show ?thesis by simp
  qed
qed

lemma default_by_type_no_function:
  "default_by_type st t = Some (v, st') \<Longrightarrow> \<not> is_function v"
  by (cases t) (auto simp: default_by_type_def new_array_def fresh_def split: if_splits)

lemma getValueOrDefault_no_function:
  assumes "getValueOrDefault h st d val = (Inr v, st')"
    and "ftype d = Attr a" and "a \<in> {''number'', ''boolean'', ''string'', ''array'', ''enum''}"
    and "\<not> is_function val" and "\<not> is_function (declared_default d)"
  shows "\<not> is_function v"
proof (cases "isEmpty h val")
  case True
  show ?thesis
  proof (cases "declared_default d = Undefined")
    case False
    with True assms(1,5) getValueOrDefault_default [of h val d st] show ?thesis by simp
  next
    case u: True
    show ?thesis
    proof (cases "default_by_type st (ftype d)")
      case None
      with True u assms(1) have "coerce_by_type h st d val = (Inr v, st')"
        by (simp add: getValueOrDefault_def declared_default_def)
      from coerce_by_type_no_function [OF this assms(2,3,4)] show ?thesis .
    next
      case (Some p)
      obtain z s where p: "p = (z, s)" by (cases p)
      with Some True u assms(1) have "v = z"
        by (simp add: getValueOrDefault_def declared_default_def)
      with default_by_type_no_function [OF Some [unfolded p]] show ?thesis by simp
    qed
  qed
next
  case False
  with assms(1,4) have "coerce_by_type h st d val = (Inr v, st')"
    by (simp add: getValueOrDefault_def)
  from coerce_by_type_no_function [OF this assms(2,3,4)] show ?thesis .
qed

section \<open>The fields of an instance made by \<open>create\<close>\<close>

lemma create_fields_keys:
  "create_fields h st defs iv = (Inr vals, st') \<Longrightarrow>
   fst ` set vals = fst ` set iv \<union> fst ` set defs"
proof (induction defs arbitrary: st iv)
  case Nil
  then show ?case by simp
next
  case (Cons p defs)
  obtain k0 d0 where p: "p = (k0, d0)" by (cases p)
  from create_fields_Cons [OF Cons.prems(1) [unfolded p]] obtain st1 v where
    step: "create_fields h st1 defs (set_prop k0 v iv) = (Inr vals, st')"
    by blast
  from Cons.IH [OF step] keys_set_prop [of k0 v iv] show ?case
    by (auto simp: p)
qed

lemma create_fields_value_from:
  assumes "create_fields h st defs iv = (Inr vals, st')"
    and "distinct (map fst defs)" and "(k, d) \<in> set defs"
  shows "\<exists>s s'. allocs st s \<and> create_field h s d (supplied h iv k d) = (Inr (get_prop vals k), s')"
  using assms
proof (induction defs arbitrary: st iv)
  case Nil
  then show ?case by simp
next
  case (Cons p defs)
  obtain k0 d0 where p: "p = (k0, d0)" by (cases p)
  from create_fields_Cons [OF Cons.prems(1) [unfolded p]] obtain st1 v where
    hd: "create_field h st d0 (supplied h iv k0 d0) = (Inr v, st1)" and
    step: "create_fields h st1 defs (set_prop k0 v iv) = (Inr vals, st')"
    by blast
  show ?case
  proof (cases "(k, d) = (k0, d0)")
    case True
    then have kd: "k0 = k" "d0 = d" by auto
    from Cons.prems(2) p kd have nin: "k \<notin> fst ` set defs" by auto
    from create_fields_other [OF step nin] have "get_prop vals k = v"
      by (simp add: kd get_prop_set_prop)
    with hd kd allocs_refl [of st] show ?thesis by blast
  next
    case False
    with Cons.prems(3) p have mem: "(k, d) \<in> set defs" by auto
    with Cons.prems(2) p have ne: "k \<noteq> k0" by (auto simp: image_iff)
    have s: "supplied h (set_prop k0 v iv) k d = supplied h iv k d"
      using ne by (simp add: supplied_def lookup_set_prop)
    from Cons.prems(2) p have dd: "distinct (map fst defs)" by simp
    from Cons.IH [OF step dd mem] obtain s1 s' where
      a: "allocs st1 s1" and
      c: "create_field h s1 d (supplied h (set_prop k0 v iv) k d) = (Inr (get_prop vals k), s')"
      by blast
    from allocs_trans [OF allocs_create_field [OF hd] a] c s show ?thesis
      by auto
  qed
qed

text \<open>The value of a schema field of a new instance is what \<open>create_field\<close> makes of
  the value supplied for it.\<close>

lemma create_field_at:
  assumes "create h P st c props = (Inr inst, st')"
    and "distinct (map fst (snd (fst (getFieldDefs P st c))))"
    and "(k, d) \<in> set (snd (fst (getFieldDefs P st c)))"
  shows "\<exists>s s'. next_id st \<le> next_id s
     \<and> create_field h s d (supplied h (initial_values props) k d)
         = (Inr (get_prop (own_entries inst) k), s')"
proof -
  obtain sch st1 where g: "getFieldDefs P st c = (sch, st1)" by (cases "getFieldDefs P st c")
  from assms(1) g obtain vals st2 where
    cf: "create_fields h st1 (snd sch) (initial_values props) = (Inr vals, st2)"
    by (auto simp: create_def split: prod.splits sum.splits)
  from assms(1) g cf obtain ps where inst: "inst = JInst (next_id st2) c (assign ps vals)"
    by (auto simp: create_def construct_def fresh_def split: prod.splits)
  from assms(2,3) g have dk: "distinct (map fst (snd sch))" and mem: "(k, d) \<in> set (snd sch)"
    by simp_all
  from create_fields_value_from [OF cf dk mem] obtain s s' where
    a: "allocs st1 s" and
    f: "create_field h s d (supplied h (initial_values props) k d) = (Inr (get_prop vals k), s')"
    by blast
  have n: "next_id st \<le> next_id s"
    using getFieldDefs_grows(1) [OF g] a by (simp add: grows_def allocs_def)
  from mem have "k \<in> fst ` set (snd sch)"
    by (rule image_eqI [rotated]) simp
  with create_fields_keys [OF cf] have "k \<in> fst ` set vals"
    by simp
  then have "map_of vals k \<noteq> None"
    by (simp add: map_of_eq_None_iff)
  then obtain v where v: "map_of vals k = Some v"
    by (cases "map_of vals k") simp_all
  have "distinct (map fst vals)"
    using create_fields_distinct [OF cf] by (simp add: initial_values_def distinct_assign)
  then have "get_prop (assign ps vals) k =
      (case map_of vals k of Some v \<Rightarrow> v | None \<Rightarrow> get_prop ps k)"
    by (rule get_prop_assign)
  with v have "get_prop (assign ps vals) k = get_prop vals k"
    by (simp add: get_prop_def)
  with inst have "get_prop (own_entries inst) k = get_prop vals k"
    by (simp add: own_entries_def)
  with f n show ?thesis by auto
qed

section \<open>What \<open>deserialize\<close> does to the state\<close>

lemma evolves_refl [simp]: "evolves P st st"
  by (simp add: evolves_def keeps_schemas_def)

lemma evolves_trans: "evolves P a b \<Longrightarrow> evolves P b c \<Longrightarrow> evolves P a c"
  using keeps_schemas_trans [of P a b c] by (auto simp: evolves_def)

lemma grows_evolves: "grows P a b \<Longrightarrow> evolves P a b"
  by (simp add: grows_def evolves_def)

lemma allocs_evolves: "allocs a b \<Longrightarrow> evolves P a b"
  by (rule grows_evolves) (rule allocs_grows)

lemma evolves_schema:
  "evolves P st st' \<Longrightarrow> static_fieldDefs P st c = Some sch \<Longrightarrow> static_fieldDefs P st' c = Some sch"
proof -
  assume "evolves P st st'" and s: "static_fieldDefs P st c = Some sch"
  then have "static_fieldDefs P st c = None \<or> static_fieldDefs P st' c = static_fieldDefs P st c"
    unfolding evolves_def keeps_schemas_def by blast
  with s show ?thesis by simp
qed

lemma evolves_next_id: "evolves P st st' \<Longrightarrow> next_id st \<le> next_id st'"
  by (simp add: evolves_def)

lemma allocs_rename_keys:
  "rename_keys f st v = (w, st') \<Longrightarrow> allocs st st'"
  "rename_list f st xs = (ys, st'') \<Longrightarrow> allocs st st''"
  "rename_props f st ps = (qs, st''') \<Longrightarrow> allocs st st'''"
  by (induction f st v and f st xs and f st ps arbitrary: w st' and ys st'' and qs st'''
      rule: rename_keys_rename_list_rename_props.induct)
    (auto simp: fresh_def split: prod.splits
      intro: allocs_trans [OF allocs_fresh [unfolded fresh_def, simplified]] allocs_trans)

lemma allocs_parse_input: "parse_input h st json = (r, st') \<Longrightarrow> allocs st st'"
  by (cases json)
    (auto simp: parse_input_def JSON_parse_new_def split: sum.splits prod.splits
      dest: allocs_json_copy(1))

lemma freeze_simps [simp]:
  "next_id (freeze st v) = next_id st" "cache (freeze st v) = cache st"
  "warnings (freeze st v) = warnings st" "frozen (freeze st v) = frozen st \<union> top_ids v"
  by (cases v; simp add: freeze_def top_ids_def)+

lemma freeze_evolves: "evolves P st (freeze st v)"
proof -
  have "\<And>c. static_fieldDefs P (freeze st v) c = static_fieldDefs P st c"
    by (rule static_fieldDefs_cache) simp
  then show ?thesis
    by (simp add: evolves_def keeps_schemas_def)
qed

text \<open>The steps of \<open>normalize\<close>, when it returns.\<close>

lemma normalize_run:
  assumes "normalize h st json = (Inr tree, st3)"
  shows "\<exists>json1 st1. parse_input h st json = (Inr json1, st1)
     \<and> camelizeObject h (freeze st1 json1) json1 = (tree, st3)"
  using assms
  by (auto simp: normalize_def Let_def split: prod.splits sum.splits)

lemma normalize_evolves: "evolves P st (snd (normalize h st json))"
proof -
  obtain r st1 where p: "parse_input h st json = (r, st1)" by (cases "parse_input h st json")
  have e1: "evolves P st st1"
    using allocs_parse_input [OF p] by (rule allocs_evolves)
  show ?thesis
  proof (cases r)
    case (Inl e)
    with p e1 show ?thesis by (simp add: normalize_def)
  next
    case (Inr json1)
    obtain tree st3 where c: "camelizeObject h (freeze st1 json1) json1 = (tree, st3)"
      by (cases "camelizeObject h (freeze st1 json1) json1")
    then have "allocs (freeze st1 json1) st3"
      unfolding camelizeObject_def by (rule allocs_rename_keys(1))
    then have "evolves P (freeze st1 json1) st3" by (rule allocs_evolves)
    with evolves_trans [OF e1 freeze_evolves] have "evolves P st st3"
      by (rule evolves_trans)
    with p Inr c show ?thesis by (simp add: normalize_def)
  qed
qed

lemma normalize_cache: "cache (snd (normalize h st json)) = cache st"
proof -
  obtain r st1 where p: "parse_input h st json = (r, st1)" by (cases "parse_input h st json")
  from allocs_parse_input [OF p] have c1: "cache st1 = cache st" by (simp add: allocs_def)
  show ?thesis
  proof (cases r)
    case (Inl e)
    with p c1 show ?thesis by (simp add: normalize_def)
  next
    case (Inr json1)
    obtain tree st3 where c: "camelizeObject h (freeze st1 json1) json1 = (tree, st3)"
      by (cases "camelizeObject h (freeze st1 json1) json1")
    then have "allocs (freeze st1 json1) st3"
      unfolding camelizeObject_def by (rule allocs_rename_keys(1))
    then have "cache st3 = cache st1" by (simp add: allocs_def)
    with p Inr c c1 show ?thesis by (simp add: normalize_def)
  qed
qed

lemma rec_evolvesD: "rec_evolves P rec \<Longrightarrow> evolves P s (snd (rec s t v))"
  by (simp add: rec_evolves_def)

lemma deserialize_array_evolves:
  assumes "rec_evolves P rec"
  shows "evolves P st (snd (deserialize_array rec st t xs))"
proof (induction xs arbitrary: st)
  case Nil
  show ?case by simp
next
  case (Cons x xs)
  obtain r st1 where r: "rec st t x = (r, st1)" by (cases "rec st t x")
  have e1: "evolves P st st1"
    using rec_evolvesD [OF assms, of st t x] r by simp
  show ?case
  proof (cases r)
    case (Inl e)
    with r e1 show ?thesis by simp
  next
    case (Inr y)
    obtain r2 st2 where a: "deserialize_array rec st1 t xs = (r2, st2)"
      by (cases "deserialize_array rec st1 t xs")
    from Cons.IH [of st1] a have "evolves P st1 st2" by simp
    with e1 have "evolves P st st2" by (rule evolves_trans)
    with r Inr a show ?thesis by (cases r2) simp_all
  qed
qed

lemma new_array_eq: "new_array st xs = (JArr (next_id st) xs, snd (fresh st))"
  by (simp add: new_array_def fresh_def)

lemma deserialize_field_evolves:
  assumes "rec_evolves P rec"
  shows "evolves P st (snd (deserialize_field rec h st tree k d))"
proof (cases "ftype d")
  case (Attr a)
  obtain r s where g: "getValueOrDefault h st d (read h tree (wire_key k d)) = (r, s)"
    by (cases "getValueOrDefault h st d (read h tree (wire_key k d))")
  from allocs_getValueOrDefault [OF g] have "evolves P st s" by (rule allocs_evolves)
  with Attr g show ?thesis by (simp add: deserialize_field_def)
next
  case (Fragment t)
  with rec_evolvesD [OF assms] show ?thesis by (simp add: deserialize_field_def)
next
  case (FragmentArray t)
  show ?thesis
  proof (cases "elements (read h tree (wire_key k d))")
    case None
    with FragmentArray allocs_evolves [OF allocs_fresh] show ?thesis
      by (simp add: deserialize_field_def new_array_eq)
  next
    case (Some xs)
    obtain r s where a: "deserialize_array rec st t xs = (r, s)"
      by (cases "deserialize_array rec st t xs")
    from deserialize_array_evolves [OF assms, of st t xs] a have e: "evolves P st s" by simp
    show ?thesis
    proof (cases r)
      case (Inl e')
      with FragmentArray Some a e show ?thesis by (simp add: deserialize_field_def)
    next
      case (Inr ys)
      from evolves_trans [OF e allocs_evolves [OF allocs_fresh]]
      have "evolves P st (snd (fresh s))" .
      with FragmentArray Some a Inr show ?thesis
        by (simp add: deserialize_field_def new_array_eq)
    qed
  qed
qed

lemma deserialize_fields_evolves:
  assumes "rec_evolves P rec"
  shows "evolves P st (snd (deserialize_fields rec h st tree defs obj))"
proof (induction defs arbitrary: st obj)
  case Nil
  show ?case by simp
next
  case (Cons p defs)
  obtain k d where p: "p = (k, d)" by (cases p)
  obtain r st1 where f: "deserialize_field rec h st tree k d = (r, st1)"
    by (cases "deserialize_field rec h st tree k d")
  from deserialize_field_evolves [OF assms, of st h tree k d] f have e1: "evolves P st st1"
    by simp
  show ?case
  proof (cases r)
    case (Inl e)
    with p f e1 show ?thesis by simp
  next
    case (Inr v)
    from evolves_trans [OF e1 Cons.IH [of st1 "set_prop k v obj"]] p f Inr show ?thesis
      by simp
  qed
qed

lemma deserialize_evolves: "rec_evolves P (deserialize h P n)"
proof (induction n)
  case 0
  show ?case by (simp add: rec_evolves_def)
next
  case (Suc n)
  show ?case
    unfolding rec_evolves_def
  proof (intro allI)
    fix st c json
    show "evolves P st (snd (deserialize h P (Suc n) st c json))"
    proof (cases "map_of P c = None")
      case True
      then show ?thesis by simp
    next
      case inP: False
      obtain r st3 where nz: "normalize h st json = (r, st3)" by (cases "normalize h st json")
      from normalize_evolves [of P st h json] nz have e3: "evolves P st st3" by simp
      show ?thesis
      proof (cases r)
        case (Inl e)
        with inP nz e3 show ?thesis by simp
      next
        case (Inr tree)
        show ?thesis
        proof (cases "is_nullish tree")
          case True
          with inP nz Inr e3 show ?thesis by simp
        next
          case False
          obtain sch st4 where g: "getFieldDefs P st3 c = (sch, st4)"
            by (cases "getFieldDefs P st3 c")
          have e4: "evolves P st (snd (fresh st4))"
            using evolves_trans [OF e3 evolves_trans [OF grows_evolves [OF getFieldDefs_grows(1) [OF g]]
                allocs_evolves [OF allocs_fresh]]] .
          obtain r6 st6 where f: "deserialize_fields (deserialize h P n) h (snd (fresh st4)) tree
              (snd sch) [] = (r6, st6)"
            by (cases "deserialize_fields (deserialize h P n) h (snd (fresh st4)) tree (snd sch) []")
          from deserialize_fields_evolves [OF Suc, of "snd (fresh st4)" h tree "snd sch" "[]"] f
          have "evolves P (snd (fresh st4)) st6" by simp
          with e4 have e6: "evolves P st st6" by (rule evolves_trans)
          show ?thesis
          proof (cases r6)
            case (Inl e)
            with inP nz Inr False g f e6 show ?thesis
              by (simp add: fresh_def)
          next
            case mp: (Inr modelParams)
            obtain r7 st7 where cr: "create h P st6 c (JObj (next_id st4) modelParams) = (r7, st7)"
              by (cases "create h P st6 c (JObj (next_id st4) modelParams)")
            from evolves_trans [OF e6 grows_evolves [OF create_grows [OF cr]]]
            have "evolves P st st7" .
            with inP nz Inr False g f mp cr show ?thesis
              by (simp add: fresh_def)
          qed
        qed
      qed
    qed
  qed
qed

section \<open>The loop of \<open>deserialize\<close>\<close>

lemma deserialize_fields_Cons:
  "deserialize_fields rec h st tree ((k, d) # ds) obj = (Inr mp, st') \<Longrightarrow>
   \<exists>v st1. deserialize_field rec h st tree k d = (Inr v, st1)
       \<and> deserialize_fields rec h st1 tree ds (set_prop k v obj) = (Inr mp, st')"
  by (auto split: prod.splits sum.splits)

lemma deserialize_fields_other:
  "deserialize_fields rec h st tree defs obj = (Inr mp, st') \<Longrightarrow> k \<notin> fst ` set defs \<Longrightarrow>
   map_of mp k = map_of obj k"
proof (induction defs arbitrary: st obj)
  case Nil
  then show ?case by simp
next
  case (Cons p defs)
  obtain k0 d0 where p: "p = (k0, d0)" by (cases p)
  from Cons.prems(2) p have ne: "k \<noteq> k0" and nin: "k \<notin> fst ` set defs" by auto
  from deserialize_fields_Cons [OF Cons.prems(1) [unfolded p]] obtain st1 v where
    step: "deserialize_fields rec h st1 tree defs (set_prop k0 v obj) = (Inr mp, st')"
    by blast
  from Cons.IH [OF step nin] ne show ?case
    by (simp add: map_of_set_prop)
qed

lemma deserialize_fields_distinct:
  "deserialize_fields rec h st tree defs obj = (Inr mp, st') \<Longrightarrow> distinct (map fst obj) \<Longrightarrow>
   distinct (map fst mp)"
proof (induction defs arbitrary: st obj)
  case Nil
  then show ?case by simp
next
  case (Cons p defs)
  obtain k0 d0 where p: "p = (k0, d0)" by (cases p)
  from deserialize_fields_Cons [OF Cons.prems(1) [unfolded p]] obtain st1 v where
    step: "deserialize_fields rec h st1 tree defs (set_prop k0 v obj) = (Inr mp, st')"
    by blast
  from Cons.IH [OF step] Cons.prems(2) show ?case
    by (simp add: distinct_set_prop)
qed

lemma deserialize_fields_append:
  "deserialize_fields rec h st tree (xs @ ys) obj =
     (case deserialize_fields rec h st tree xs obj of
        (Inl e, s) \<Rightarrow> (Inl e, s)
      | (Inr obj1, s1) \<Rightarrow> deserialize_fields rec h s1 tree ys obj1)"
proof (induction xs arbitrary: st obj)
  case Nil
  show ?case by simp
next
  case (Cons p xs)
  obtain k d where p: "p = (k, d)" by (cases p)
  show ?case
    by (simp add: p Cons.IH split: prod.splits sum.splits)
qed

text \<open>The value the loop stores for the field \<open>k\<close> is the value of
  \<open>deserialize_field\<close> in the state the fields before it leave.\<close>

lemma deserialize_fields_at:
  assumes "deserialize_fields rec h st tree (pre @ (k, d) # post) obj = (Inr mp, st')"
    and "k \<notin> fst ` set post"
  shows "fst (deserialize_field rec h (snd (deserialize_fields rec h st tree pre obj)) tree k d)
     = Inr (get_prop mp k)"
proof -
  obtain r1 s1 where p: "deserialize_fields rec h st tree pre obj = (r1, s1)"
    by (cases "deserialize_fields rec h st tree pre obj")
  from assms(1) p obtain obj1 where r1: "r1 = Inr obj1"
    by (cases r1) (simp_all add: deserialize_fields_append)
  from assms(1) p r1 have "deserialize_fields rec h s1 tree ((k, d) # post) obj1 = (Inr mp, st')"
    by (simp add: deserialize_fields_append)
  from deserialize_fields_Cons [OF this] obtain v s2 where
    f: "deserialize_field rec h s1 tree k d = (Inr v, s2)"
    and rest: "deserialize_fields rec h s2 tree post (set_prop k v obj1) = (Inr mp, st')"
    by blast
  from deserialize_fields_other [OF rest assms(2)] have "get_prop mp k = v"
    by (simp add: get_prop_def map_of_set_prop)
  with f p show ?thesis by simp
qed

lemma deserialize_fields_keys:
  "deserialize_fields rec h st tree defs obj = (Inr mp, st') \<Longrightarrow>
   fst ` set mp = fst ` set obj \<union> fst ` set defs"
proof (induction defs arbitrary: st obj)
  case Nil
  then show ?case by simp
next
  case (Cons p defs)
  obtain k0 d0 where p: "p = (k0, d0)" by (cases p)
  from deserialize_fields_Cons [OF Cons.prems(1) [unfolded p]] obtain st1 v where
    step: "deserialize_fields rec h st1 tree defs (set_prop k0 v obj) = (Inr mp, st')"
    by blast
  from Cons.IH [OF step] keys_set_prop [of k0 v obj] show ?case
    by (auto simp: p)
qed

text \<open>The steps of \<open>deserialize\<close>, when it returns an instance.\<close>

lemma deserialize_run:
  assumes "deserialize h P (Suc n) st c json = (Inr inst, st')" and "inst \<noteq> Null"
  shows "\<exists>tree st3 sch st4 modelParams st6.
       map_of P c \<noteq> None
     \<and> normalize h st json = (Inr tree, st3)
     \<and> getFieldDefs P st3 c = (sch, st4)
     \<and> deserialize_fields (deserialize h P n) h (snd (fresh st4)) tree (snd sch) []
          = (Inr modelParams, st6)
     \<and> create h P st6 c (JObj (next_id st4) modelParams) = (Inr inst, st')
     \<and> getFieldDefs P st6 c = (sch, st6)"
proof -
  from assms(1) have inP: "map_of P c \<noteq> None"
    by (auto split: if_splits)
  obtain r st3 where nz: "normalize h st json = (r, st3)" by (cases "normalize h st json")
  from assms(1) inP nz obtain tree where r: "r = Inr tree"
    by (cases r) auto
  from assms inP nz r have nn: "\<not> is_nullish tree"
    by (auto split: if_splits)
  obtain sch st4 where g: "getFieldDefs P st3 c = (sch, st4)"
    by (cases "getFieldDefs P st3 c")
  obtain r6 st6 where f: "deserialize_fields (deserialize h P n) h (snd (fresh st4)) tree
      (snd sch) [] = (r6, st6)"
    by (cases "deserialize_fields (deserialize h P n) h (snd (fresh st4)) tree (snd sch) []")
  from assms(1) inP nz r nn g f obtain modelParams where r6: "r6 = Inr modelParams"
    by (cases r6) (auto simp: fresh_def)
  from assms(1) inP nz r nn g f r6 have
    cr: "create h P st6 c (JObj (next_id st4) modelParams) = (Inr inst, st')"
    by (simp add: fresh_def)
  have s4: "static_fieldDefs P st4 c = Some sch"
    using getFieldDefs_grows(2) [OF g inP] .
  have "evolves P (snd (fresh st4))
      (snd (deserialize_fields (deserialize h P n) h (snd (fresh st4)) tree (snd sch) []))"
    by (rule deserialize_fields_evolves) (rule deserialize_evolves)
  with f have "evolves P (snd (fresh st4)) st6" by simp
  with allocs_evolves [OF allocs_fresh] have "evolves P st4 st6"
    by (rule evolves_trans)
  from evolves_schema [OF this s4] have "getFieldDefs P st6 c = (sch, st6)"
    by (rule getFieldDefs_cached)
  with inP nz r g f r6 cr show ?thesis by blast
qed

text \<open>The entries of the schema a class reads depend on the cache only.\<close>

lemma getFieldDefs_entries:
  assumes "cache s' = cache s"
  shows "snd (fst (getFieldDefs P s' c)) = snd (fst (getFieldDefs P s c))"
proof -
  have e: "static_fieldDefs P s' c = static_fieldDefs P s c"
    using assms by (rule static_fieldDefs_cache)
  show ?thesis
  proof (cases "static_fieldDefs P s c")
    case None
    with e show ?thesis
      by (simp add: getFieldDefs_def Let_def split: prod.splits)
  next
    case (Some sch)
    with e show ?thesis by (simp add: getFieldDefs_def)
  qed
qed

lemma deserialize_value:
  assumes "deserialize h P n st c json = (Inr v, st')"
  shows "v = Null \<or> (\<exists>j ps. v = JInst j c ps)"
proof (cases n)
  case 0
  with assms show ?thesis by simp
next
  case (Suc m)
  show ?thesis
  proof (cases "v = Null")
    case True
    then show ?thesis by simp
  next
    case False
    from deserialize_run [OF assms [unfolded Suc] False] obtain s i mp where
      "create h P s c (JObj i mp) = (Inr v, st')" by blast
    from create_instance [OF this] show ?thesis by blast
  qed
qed

text \<open>What \<open>create\<close> takes for a field from the object \<open>deserialize\<close> hands it.\<close>

lemma supplied_own:
  assumes "distinct (map fst mp)" and "k \<in> fst ` set mp"
  shows "supplied h (initial_values (JObj i mp)) k d =
     (if get_prop mp k = Undefined then defaultValue d else get_prop mp k)"
proof -
  from assms(2) have "map_of mp k \<noteq> None"
    by (simp add: map_of_eq_None_iff)
  then obtain v where v: "map_of mp k = Some v"
    by (cases "map_of mp k") simp_all
  have "map_of (assign [] mp) k = map_of mp k"
    using assms(1) by (simp add: map_of_assign map_of_rev_distinct)
  with v have "lookup h ObjectProto (assign [] mp) k = get_prop mp k"
    by (simp add: lookup_def get_prop_def)
  then show ?thesis
    by (simp add: supplied_def initial_values_def typeof_object_def own_entries_def Let_def)
qed

text \<open>
  A field of an instance made by \<open>deserialize\<close>: the loop stores the value \<open>v\<close> of
  \<open>deserialize_field\<close>, in the state the fields before it leave, and \<open>create\<close>
  makes the field of \<open>v\<close>, or of the declared default when \<open>v\<close> is absent.
\<close>

lemma deserialize_made:
  assumes ret: "deserialize h P n st c json = (Inr inst, st')" and nn: "inst \<noteq> Null"
    and nz: "normalize h st json = (Inr tree, st3)"
    and sch: "snd (fst (getFieldDefs P st c)) = pre @ (k, d) # post"
    and dk: "distinct (map fst (snd (fst (getFieldDefs P st c))))"
  shows "\<exists>m v s s'. n = Suc m
     \<and> fst (deserialize_field (deserialize h P m) h
              (snd (deserialize_fields (deserialize h P m) h
                      (snd (fresh (snd (getFieldDefs P st3 c)))) tree pre []))
              tree k d) = Inr v
     \<and> create_field h s d (if v = Undefined then defaultValue d else v)
          = (Inr (get_prop (own_entries inst) k), s')"
proof -
  from ret obtain m where n: "n = Suc m" by (cases n) auto
  from deserialize_run [OF ret [unfolded n] nn] nz obtain fd st4 mp st6 where
    g: "getFieldDefs P st3 c = (fd, st4)"
    and f: "deserialize_fields (deserialize h P m) h (snd (fresh st4)) tree (snd fd) [] = (Inr mp, st6)"
    and cr: "create h P st6 c (JObj (next_id st4) mp) = (Inr inst, st')"
    and g6: "getFieldDefs P st6 c = (fd, st6)"
    by auto
  have "cache st3 = cache st"
    using normalize_cache [of h st json] nz by simp
  from getFieldDefs_entries [OF this, of P c] g have e: "snd fd = snd (fst (getFieldDefs P st c))"
    by simp
  with sch have split: "snd fd = pre @ (k, d) # post" by simp
  from dk sch have post: "k \<notin> fst ` set post" by auto
  from deserialize_fields_at [OF f [unfolded split] post] g
  have v: "fst (deserialize_field (deserialize h P m) h
              (snd (deserialize_fields (deserialize h P m) h
                      (snd (fresh (snd (getFieldDefs P st3 c)))) tree pre []))
              tree k d) = Inr (get_prop mp k)"
    by simp
  from split have mem: "(k, d) \<in> set (snd (fst (getFieldDefs P st6 c)))"
    by (simp add: g6)
  from dk e have d6: "distinct (map fst (snd (fst (getFieldDefs P st6 c))))"
    by (simp add: g6)
  from create_field_at [OF cr d6 mem] obtain s s' where
    c: "create_field h s d (supplied h (initial_values (JObj (next_id st4) mp)) k d)
         = (Inr (get_prop (own_entries inst) k), s')"
    by blast
  have "distinct (map fst mp)"
    using deserialize_fields_distinct [OF f] by simp
  moreover have "k \<in> fst ` set mp"
    using deserialize_fields_keys [OF f] split by simp
  ultimately have "supplied h (initial_values (JObj (next_id st4) mp)) k d =
     (if get_prop mp k = Undefined then defaultValue d else get_prop mp k)"
    by (rule supplied_own)
  with c have "create_field h s d (if get_prop mp k = Undefined then defaultValue d
        else get_prop mp k) = (Inr (get_prop (own_entries inst) k), s')"
    by simp
  with v n show ?thesis by blast
qed

lemma deserialize_field_array:
  assumes "deserialize_field rec h st tree k d = (Inr v, st')" and "ftype d = FragmentArray t"
  shows "\<exists>j ys. v = JArr j ys"
proof (cases "elements (read h tree (wire_key k d))")
  case None
  with assms show ?thesis by (auto simp: deserialize_field_def new_array_eq)
next
  case (Some xs)
  with assms show ?thesis
    by (cases "deserialize_array rec st t xs")
      (auto simp: deserialize_field_def new_array_eq split: sum.splits)
qed

section \<open>Properties of \<open>create\<close>\<close>

text \<open>
  C9, as the code has it. Let \<open>val\<close> be the value supplied for a schema field to
  \<open>create\<close>: the initial value, else the declared default. In the instance that
  \<open>create\<close> makes, a field of one of the five scalar kinds and a fragment-array field
  carry a defined value, when an absent value counts as empty and \<open>val\<close> is no producer
  of an absent value. For an attribute and an empty \<open>val\<close> the field is the declared
  default, else a new empty array for the kind \<open>array\<close>, else the zero value of the
  kind (null for a number and an enum, false for a boolean, the empty text for a
  string), else, for any other kind, \<open>val\<close> itself. A producer that is not empty is
  invoked. A fragment-array field is \<open>val\<close> when that is truthy and a new empty array
  when not. A fragment field has no zero value: for an empty \<open>val\<close> it is the declared
  default, else \<open>val\<close> itself, which is absent when nothing was supplied.

  In an instance that \<open>deserialize\<close> makes of the normalized input \<open>tree\<close>, every
  fragment field and fragment-array field is defined, and so is a field of one of the
  five scalar kinds when neither the value read at its wire key nor the declared default
  is a function.
\<close>

theorem create_defines_fields:
  assumes "isEmpty h Undefined"
    and "distinct (map fst (snd (fst (getFieldDefs P st c))))"
    and "(k, d) \<in> set (snd (fst (getFieldDefs P st c)))"
  shows "(create h P st c props = (Inr inst, st')
          \<and> val = supplied h (initial_values props) k d \<and> field = get_prop (own_entries inst) k
          \<longrightarrow>
            (((\<exists>t. ftype d = FragmentArray t) \<or>
                (\<exists>a \<in> {''number'', ''boolean'', ''string'', ''array'', ''enum''}. ftype d = Attr a))
              \<and> (\<forall>j. val \<noteq> JFun j Undefined) \<longrightarrow> field \<noteq> Undefined)
          \<and> (\<forall>a. ftype d = Attr a \<and> isEmpty h val \<longrightarrow>
                (if declared_default d \<noteq> Undefined then field = declared_default d
                 else if a = ''array'' then (\<exists>j \<ge> next_id st. field = JArr j [])
                 else if a \<in> {''number'', ''boolean'', ''string'', ''enum''} then zero_value a field
                 else field = val))
          \<and> ((\<forall>t. ftype d \<noteq> FragmentArray t) \<and> \<not> isEmpty h val \<and> is_function val
                \<longrightarrow> field = invoke val)
          \<and> (\<forall>t. ftype d = FragmentArray t \<longrightarrow>
                (if truthy val then field = val else (\<exists>j \<ge> next_id st. field = JArr j [])))
          \<and> (\<forall>t. ftype d = Fragment t \<longrightarrow>
                field = (if isEmpty h val
                         then (if declared_default d \<noteq> Undefined then declared_default d else val)
                         else invoke val)))
       \<and> (deserialize h P n st c json = (Inr inst, st') \<and> inst \<noteq> Null
          \<and> normalize h st json = (Inr tree, st3)
          \<and> ((\<exists>t. ftype d = Fragment t) \<or> (\<exists>t. ftype d = FragmentArray t)
              \<or> (\<exists>a \<in> {''number'', ''boolean'', ''string'', ''array'', ''enum''}. ftype d = Attr a)
                 \<and> \<not> is_function (read h tree (wire_key k d))
                 \<and> \<not> is_function (declared_default d))
          \<longrightarrow> get_prop (own_entries inst) k \<noteq> Undefined)"
proof (rule conjI; rule impI)
  assume a: "create h P st c props = (Inr inst, st')
          \<and> val = supplied h (initial_values props) k d \<and> field = get_prop (own_entries inst) k"
  from create_field_at [OF _ assms(2,3), of h props inst st'] a obtain s s' where
    n: "next_id st \<le> next_id s" and f: "create_field h s d val = (Inr field, s')"
    by auto
  have c2: "\<forall>a. ftype d = Attr a \<and> isEmpty h val \<longrightarrow>
                (if declared_default d \<noteq> Undefined then field = declared_default d
                 else if a = ''array'' then (\<exists>j \<ge> next_id st. field = JArr j [])
                 else if a \<in> {''number'', ''boolean'', ''string'', ''enum''} then zero_value a field
                 else field = val)"
  proof (intro allI impI)
    fix a
    assume b: "ftype d = Attr a \<and> isEmpty h val"
    then have k: "ftype d = Attr a" and e: "isEmpty h val" by simp_all
    from f k have g: "getValueOrDefault h s d val = (Inr field, s')"
      by (simp add: create_field_def)
    show "if declared_default d \<noteq> Undefined then field = declared_default d
                 else if a = ''array'' then (\<exists>j \<ge> next_id st. field = JArr j [])
                 else if a \<in> {''number'', ''boolean'', ''string'', ''enum''} then zero_value a field
                 else field = val"
    proof (cases "declared_default d = Undefined")
      case False
      with getValueOrDefault_default [OF e, of d s] g show ?thesis by simp
    next
      case u: True
      consider "a = ''array''" | "a \<in> {''number'', ''boolean'', ''string'', ''enum''}"
        | "a \<notin> {''number'', ''boolean'', ''string'', ''array'', ''enum''}"
        by auto
      then show ?thesis
      proof cases
        case 1
        with getValueOrDefault_new_array [OF e u, of s] k g have "field = JArr (next_id s) []"
          by simp
        with n u 1 show ?thesis by auto
      next
        case 2
        then obtain z where z: "zero_value a z"
          by (auto simp: zero_value_def)
        from getValueOrDefault_zero [OF e u k z, of s] g have "field = z" by simp
        with z u 2 show ?thesis by auto
      next
        case 3
        from getValueOrDefault_other_kind [OF e u k 3, of s] g have "field = val" by simp
        with u 3 show ?thesis by auto
      qed
    qed
  qed
  have c3: "(\<forall>t. ftype d \<noteq> FragmentArray t) \<and> \<not> isEmpty h val \<and> is_function val
                \<longrightarrow> field = invoke val"
  proof
    assume b: "(\<forall>t. ftype d \<noteq> FragmentArray t) \<and> \<not> isEmpty h val \<and> is_function val"
    then have "create_field h s d val = getValueOrDefault h s d val"
      by (cases "ftype d") (simp_all add: create_field_def)
    with f b getValueOrDefault_producer [of h val s d] show "field = invoke val" by simp
  qed
  have c4: "\<forall>t. ftype d = FragmentArray t \<longrightarrow>
                (if truthy val then field = val else (\<exists>j \<ge> next_id st. field = JArr j []))"
  proof (intro allI impI)
    fix t
    assume "ftype d = FragmentArray t"
    with f have "if truthy val then field = val else field = JArr (next_id s) []"
      by (auto simp: create_field_def new_array_eq split: if_splits)
    with n show "if truthy val then field = val else (\<exists>j \<ge> next_id st. field = JArr j [])"
      by auto
  qed
  have c5: "\<forall>t. ftype d = Fragment t \<longrightarrow>
                field = (if isEmpty h val
                         then (if declared_default d \<noteq> Undefined then declared_default d else val)
                         else invoke val)"
  proof (intro allI impI)
    fix t
    assume t: "ftype d = Fragment t"
    with f have "getValueOrDefault h s d val = (Inr field, s')"
      by (simp add: create_field_def)
    with getValueOrDefault_fragment [OF t, of h s val]
    show "field = (if isEmpty h val
                         then (if declared_default d \<noteq> Undefined then declared_default d else val)
                         else invoke val)"
      by simp
  qed
  have c1: "((\<exists>t. ftype d = FragmentArray t) \<or>
                (\<exists>a \<in> {''number'', ''boolean'', ''string'', ''array'', ''enum''}. ftype d = Attr a))
              \<and> (\<forall>j. val \<noteq> JFun j Undefined) \<longrightarrow> field \<noteq> Undefined"
    using create_field_defined [OF f assms(1)] by blast
  from c1 c2 c3 c4 c5
  show "(((\<exists>t. ftype d = FragmentArray t) \<or>
                (\<exists>a \<in> {''number'', ''boolean'', ''string'', ''array'', ''enum''}. ftype d = Attr a))
              \<and> (\<forall>j. val \<noteq> JFun j Undefined) \<longrightarrow> field \<noteq> Undefined)
          \<and> (\<forall>a. ftype d = Attr a \<and> isEmpty h val \<longrightarrow>
                (if declared_default d \<noteq> Undefined then field = declared_default d
                 else if a = ''array'' then (\<exists>j \<ge> next_id st. field = JArr j [])
                 else if a \<in> {''number'', ''boolean'', ''string'', ''enum''} then zero_value a field
                 else field = val))
          \<and> ((\<forall>t. ftype d \<noteq> FragmentArray t) \<and> \<not> isEmpty h val \<and> is_function val
                \<longrightarrow> field = invoke val)
          \<and> (\<forall>t. ftype d = FragmentArray t \<longrightarrow>
                (if truthy val then field = val else (\<exists>j \<ge> next_id st. field = JArr j [])))
          \<and> (\<forall>t. ftype d = Fragment t \<longrightarrow>
                field = (if isEmpty h val
                         then (if declared_default d \<noteq> Undefined then declared_default d else val)
                         else invoke val))"
    by (intro conjI)
next
  assume a: "deserialize h P n st c json = (Inr inst, st') \<and> inst \<noteq> Null
          \<and> normalize h st json = (Inr tree, st3)
          \<and> ((\<exists>t. ftype d = Fragment t) \<or> (\<exists>t. ftype d = FragmentArray t)
              \<or> (\<exists>a \<in> {''number'', ''boolean'', ''string'', ''array'', ''enum''}. ftype d = Attr a)
                 \<and> \<not> is_function (read h tree (wire_key k d))
                 \<and> \<not> is_function (declared_default d))"
  from assms(3) obtain pre post where
    split: "snd (fst (getFieldDefs P st c)) = pre @ (k, d) # post"
    by (auto dest: split_list)
  from a have ret: "deserialize h P n st c json = (Inr inst, st')" and nn: "inst \<noteq> Null"
    and nz: "normalize h st json = (Inr tree, st3)" by simp_all
  let ?field = "get_prop (own_entries inst) k"
  from deserialize_made [OF ret nn nz split assms(2)] obtain m v s s' where
    n: "n = Suc m"
    and v: "fst (deserialize_field (deserialize h P m) h
              (snd (deserialize_fields (deserialize h P m) h
                      (snd (fresh (snd (getFieldDefs P st3 c)))) tree pre []))
              tree k d) = Inr v"
    and f: "create_field h s d (if v = Undefined then defaultValue d else v) = (Inr ?field, s')"
    by blast
  define s1 where "s1 = snd (deserialize_fields (deserialize h P m) h
                      (snd (fresh (snd (getFieldDefs P st3 c)))) tree pre [])"
  obtain s2 where df: "deserialize_field (deserialize h P m) h s1 tree k d = (Inr v, s2)"
    using v unfolding s1_def
    by (cases "deserialize_field (deserialize h P m) h
              (snd (deserialize_fields (deserialize h P m) h
                      (snd (fresh (snd (getFieldDefs P st3 c)))) tree pre [])) tree k d") simp
  from a consider (frag) t where "ftype d = Fragment t"
    | (arr) t where "ftype d = FragmentArray t"
    | (attr) x where "x \<in> {''number'', ''boolean'', ''string'', ''array'', ''enum''}"
        "ftype d = Attr x" "\<not> is_function (read h tree (wire_key k d))"
        "\<not> is_function (declared_default d)"
    by blast
  then show "?field \<noteq> Undefined"
  proof cases
    case frag
    from df frag have "deserialize h P m s1 t (read h tree (wire_key k d)) = (Inr v, s2)"
      by (simp add: deserialize_field_def)
    from deserialize_value [OF this] have sh: "v = Null \<or> (\<exists>j ps. v = JInst j t ps)" .
    then have vu: "v \<noteq> Undefined" and iv: "invoke v = v" by auto
    from f vu frag have "getValueOrDefault h s d v = (Inr ?field, s')"
      by (simp add: create_field_def)
    with getValueOrDefault_fragment [OF frag, of h s v] iv vu show ?thesis
      by (auto split: if_splits)
  next
    case arr
    from deserialize_field_array [OF df arr] obtain j ys where "v = JArr j ys" by blast
    with f arr show ?thesis by (auto simp: create_field_def)
  next
    case attr
    from df attr(2) have g1: "getValueOrDefault h s1 d (read h tree (wire_key k d)) = (Inr v, s2)"
      by (simp add: deserialize_field_def)
    from attr(3) have nf: "\<forall>j. read h tree (wire_key k d) \<noteq> JFun j Undefined" by auto
    from getValueOrDefault_defined [OF g1 assms(1) attr(2,1) nf] have vu: "v \<noteq> Undefined" .
    from getValueOrDefault_no_function [OF g1 attr(2,1,3,4)] have "\<not> is_function v" .
    then have nf2: "\<forall>j. v \<noteq> JFun j Undefined" by auto
    from f vu attr(2) have "getValueOrDefault h s d v = (Inr ?field, s')"
      by (simp add: create_field_def)
    from getValueOrDefault_defined [OF this assms(1) attr(2,1) nf2] show ?thesis .
  qed
qed

theorem create_defines_fields_witness:
  "(\<exists>j \<ge> 100. get_prop (own_entries (JInst 108 ''Customer''
        [(''firstName'', JStr []), (''lastName'', JStr []), (''dateOfBirth'', Undefined),
         (''address'', Undefined), (''otherAddresses'', JArr 107 [])])) ''otherAddresses''
       = JArr j [])
   \<and> zero_value ''string'' (get_prop (own_entries (JInst 108 ''Customer''
        [(''firstName'', JStr []), (''lastName'', JStr []), (''dateOfBirth'', Undefined),
         (''address'', Undefined), (''otherAddresses'', JArr 107 [])])) ''firstName'')
   \<and> get_prop (own_entries (JInst 109 ''Address''
        [(''country'', JStr []), (''postcode'', JStr []), (''state'', JStr []),
         (''streetAddress'', JStr []), (''suburb'', JStr [])])) ''country'' \<noteq> Undefined"
proof -
  let ?inst = "JInst 108 ''Customer''
        [(''firstName'', JStr []), (''lastName'', JStr []), (''dateOfBirth'', Undefined),
         (''address'', Undefined), (''otherAddresses'', JArr 107 [])]"
  let ?st = "snd (create example_env docs run_state ''Customer'' Undefined)"
  let ?dA = "(fragmentArray ''Address'')\<lparr>key := Some ''otherAddresses''\<rparr>"
  let ?dF = "(attr ''string'')\<lparr>key := Some ''firstName''\<rparr>"
  let ?dC = "(attr ''string'')\<lparr>key := Some ''country''\<rparr>"
  let ?addr = "JInst 109 ''Address''
        [(''country'', JStr []), (''postcode'', JStr []), (''state'', JStr []),
         (''streetAddress'', JStr []), (''suburb'', JStr [])]"
  let ?st2 = "snd (deserialize example_env docs 1 run_state ''Address'' (JObj 0 []))"
  let ?s3 = "snd (normalize example_env run_state (JObj 0 []))"
  have e: "isEmpty example_env Undefined"
    by (simp add: example_env_def)
  have 1: "create example_env docs run_state ''Customer'' Undefined = (Inr ?inst, ?st)"
    by code_simp
  have 2: "distinct (map fst (snd (fst (getFieldDefs docs run_state ''Customer''))))"
    by code_simp
  have 3: "(''otherAddresses'', ?dA) \<in> set (snd (fst (getFieldDefs docs run_state ''Customer'')))"
    "(''firstName'', ?dF) \<in> set (snd (fst (getFieldDefs docs run_state ''Customer'')))"
    by code_simp+
  have 4: "supplied example_env (initial_values Undefined) ''otherAddresses'' ?dA = Undefined"
    "supplied example_env (initial_values Undefined) ''firstName'' ?dF = Undefined"
    by (simp_all add: supplied_def initial_values_def typeof_object_def lookup_def
        example_env_def fragmentArray_def attr_def)
  have 5: "ftype ?dA = FragmentArray ''Address''" "ftype ?dF = Attr ''string''"
    "declared_default ?dF = Undefined" "\<not> truthy Undefined" "next_id run_state = 100"
    "ftype ?dC = Attr ''string''" "\<not> is_function (declared_default ?dC)"
    by (simp_all add: fragmentArray_def attr_def declared_default_def run_state_def)
  have 6: "deserialize example_env docs 1 run_state ''Address'' (JObj 0 []) = (Inr ?addr, ?st2)"
    by code_simp
  have 7: "normalize example_env run_state (JObj 0 []) = (Inr (JObj 100 []), ?s3)"
    by code_simp
  have 8: "distinct (map fst (snd (fst (getFieldDefs docs run_state ''Address''))))"
    "(''country'', ?dC) \<in> set (snd (fst (getFieldDefs docs run_state ''Address'')))"
    by code_simp+
  have 9: "\<not> is_function (read example_env (JObj 100 []) (wire_key ''country'' ?dC))"
    by (simp add: read_def lookup_def own_props_def example_env_def)
  from create_defines_fields [OF e 2 3(1), where props = Undefined and inst = ?inst
      and st' = ?st and val = Undefined
      and field = "get_prop (own_entries ?inst) ''otherAddresses''"]
    1 4(1) 5(1,4,5)
  have a: "\<exists>j \<ge> 100. get_prop (own_entries ?inst) ''otherAddresses'' = JArr j []"
    by simp
  from create_defines_fields [OF e 2 3(2), where props = Undefined and inst = ?inst
      and st' = ?st and val = Undefined
      and field = "get_prop (own_entries ?inst) ''firstName''"]
    1 4(2) 5(2,3) e
  have b: "zero_value ''string'' (get_prop (own_entries ?inst) ''firstName'')"
    by simp
  from create_defines_fields [OF e 8, where inst = ?addr and st' = ?st2 and n = 1
      and json = "JObj 0 []" and tree = "JObj 100 []" and ?st3.0 = ?s3]
    6 7 5(6,7) 9
  have c: "get_prop (own_entries ?addr) ''country'' \<noteq> Undefined"
    by simp
  from a b c show ?thesis by (intro conjI)
qed

text \<open>
  The claim C9 as stated fails: \<open>Customer.create()\<close> leaves the fragment field
  \<open>address\<close> of the schema without a defined value.
\<close>

theorem create_fragment_undefined_counterexample:
  "fst (create example_env docs run_state ''Customer'' Undefined)
     = Inr (JInst 108 ''Customer''
        [(''firstName'', JStr []), (''lastName'', JStr []), (''dateOfBirth'', Undefined),
         (''address'', Undefined), (''otherAddresses'', JArr 107 [])])
   \<and> map_of (snd (fst (getFieldDefs docs run_state ''Customer''))) ''address''
     = Some ((fragment ''Address'')\<lparr>key := Some ''address''\<rparr>)"
  by code_simp

section \<open>Properties of \<open>deserialize\<close>\<close>






section \<open>Properties of \<open>clone\<close>\<close>

text \<open>
  C4. The code of \<open>clone\<close> does not copy the value of an attribute. A basket is made
  by \<open>create\<close> with an array of items (identity 1); its clone is a new instance that
  holds, in the array-kind attribute \<open>items\<close>, that very array object, so a change of
  the array through the clone is a change of the original. The claim has a copy there,
  and so has the comment of \<open>clone\<close> (the whole structure is converted to a JSON
  string and parsed again). And the clone of the customer that \<open>Customer.create()\<close>
  makes, whose fragment \<open>address\<close> is absent, is no instance: the call raises a
  \<open>SyntaxError\<close>.
\<close>

theorem clone_shares_array:
  "create example_env shop run_state ''Basket'' (JObj 0 [(''items'', JArr 1 [JStr ''x''])])
     = (Inr a_basket, basket_state)
   \<and> fst (clone example_env shop 1 basket_state a_basket)
     = Inr (JInst 108 ''Basket'' [(''owner'', JStr []), (''items'', JArr 1 [JStr ''x''])])
   \<and> read example_env a_basket ''items'' = JArr 1 [JStr ''x'']
   \<and> strict_eq
        (read example_env
           (JInst 108 ''Basket'' [(''owner'', JStr []), (''items'', JArr 1 [JStr ''x''])])
           ''items'')
        (read example_env a_basket ''items'')
   \<and> (case create example_env shop run_state ''Customer'' Undefined of
         (Inr customer, st) \<Rightarrow> fst (clone example_env shop 1 st customer) = Inl SyntaxError
       | (Inl e, st) \<Rightarrow> False)"
  by code_simp


end
